(* ===== verification/Prelude.thy ===== *)
theory Prelude
  imports
    Main
    "HOL-Library.Word" "HOL-Library.Code_Target_Nat"
    "HOL-Library.AList"
    "HOL-Library.Multiset"
    "HOL-Library.Product_Lexorder"
    "HOL-Library.List_Lexorder"
    "HOL-Library.Char_ord"
begin

text \<open>
  Shared vocabulary of the development: the machine types of the Rust code, the parts of the
  Rust standard library that several components use (results and the \<open>?\<close> operator, hash maps,
  \<open>max_by_key\<close>, \<open>dedup\<close>, string splitting, decimal printing and parsing of unsigned integers)
  and the generic lemmas about them that the component theories rely on.
\<close>

section \<open>Types\<close>

type_synonym u8 = "8 word"
type_synonym u16 = "16 word"
type_synonym u32 = "32 word"
type_synonym bytes = "u8 list"
type_synonym ipv4addr = u32
type_synonym mac = "u8 list"

named_theorems std_simps \<open>evaluation rules for the standard library models\<close>
named_theorems wf_intros \<open>preservation of well-formedness by the operations\<close>

section \<open>Results\<close>

text \<open>\<open>Result<T, E>\<close> is \<open>'e + 'a\<close> with \<open>Inl\<close> for \<open>Err\<close>; \<open>and_then\<close> is what the \<open>?\<close> operator does.\<close>

definition and_then :: "'e + 'a \<Rightarrow> ('a \<Rightarrow> 'e + 'b) \<Rightarrow> 'e + 'b" where
  "and_then r f = (case r of Inl e \<Rightarrow> Inl e | Inr a \<Rightarrow> f a)"

definition map_err :: "('e \<Rightarrow> 'f) \<Rightarrow> 'e + 'a \<Rightarrow> 'f + 'a" where
  "map_err f r = (case r of Inl e \<Rightarrow> Inl (f e) | Inr a \<Rightarrow> Inr a)"

definition ok_or :: "'e \<Rightarrow> 'a option \<Rightarrow> 'e + 'a" where
  "ok_or e v = (case v of None \<Rightarrow> Inl e | Some a \<Rightarrow> Inr a)"

definition ensure :: "bool \<Rightarrow> 'e \<Rightarrow> 'e + unit" where
  "ensure b e = (if b then Inr () else Inl e)"

text \<open>Collecting an iterator of results stops at the first error.\<close>

fun collect_results :: "('e + 'a) list \<Rightarrow> 'e + 'a list" where
  "collect_results [] = Inr []"
| "collect_results (r # rs) =
     (case r of Inl e \<Rightarrow> Inl e
      | Inr a \<Rightarrow> (case collect_results rs of Inl e \<Rightarrow> Inl e | Inr as \<Rightarrow> Inr (a # as)))"

section \<open>Hash maps\<close>

text \<open>
  A \<open>HashMap\<close> is an association list with distinct keys. Its iteration order is unspecified, so
  a definition that iterates over one takes the order as a parameter.
\<close>

type_synonym ('k, 'v) hashmap = "('k \<times> 'v) list"

definition hm_get :: "('k, 'v) hashmap \<Rightarrow> 'k \<Rightarrow> 'v option" where
  "hm_get m k = map_of m k"

definition hm_insert :: "'k \<Rightarrow> 'v \<Rightarrow> ('k, 'v) hashmap \<Rightarrow> ('k, 'v) hashmap" where
  "hm_insert k v m = AList.update k v m"

definition hm_contains_key :: "('k, 'v) hashmap \<Rightarrow> 'k \<Rightarrow> bool" where
  "hm_contains_key m k = (hm_get m k \<noteq> None)"

definition hm_remove :: "'k \<Rightarrow> ('k, 'v) hashmap \<Rightarrow> ('k, 'v) hashmap" where
  "hm_remove k m = AList.delete k m"

definition hm_len :: "('k, 'v) hashmap \<Rightarrow> nat" where
  "hm_len m = length m"

definition hm_retain :: "('k \<Rightarrow> 'v \<Rightarrow> bool) \<Rightarrow> ('k, 'v) hashmap \<Rightarrow> ('k, 'v) hashmap" where
  "hm_retain p m = filter (\<lambda>(k, v). p k v) m"

definition hm_wf :: "('k, 'v) hashmap \<Rightarrow> bool" where
  "hm_wf m = distinct (map fst m)"

section \<open>Iterator and slice operations\<close>

text \<open>\<open>Iterator::max_by_key\<close> returns the last of several maximal elements.\<close>

fun max_by_key_from :: "('a \<Rightarrow> 'k::linorder) \<Rightarrow> 'a \<Rightarrow> 'a list \<Rightarrow> 'a" where
  "max_by_key_from f best [] = best"
| "max_by_key_from f best (x # xs) =
     max_by_key_from f (if f best \<le> f x then x else best) xs"

definition max_by_key :: "('a \<Rightarrow> 'k::linorder) \<Rightarrow> 'a list \<Rightarrow> 'a option" where
  "max_by_key f xs = (case xs of [] \<Rightarrow> None | y # ys \<Rightarrow> Some (max_by_key_from f y ys))"

text \<open>\<open>Vec::dedup\<close> keeps the first element of each run of equal elements.\<close>

fun dedup :: "'a list \<Rightarrow> 'a list" where
  "dedup [] = []"
| "dedup [x] = [x]"
| "dedup (x # y # xs) = (if x = y then dedup (x # xs) else x # dedup (y # xs))"

text \<open>\<open>core::cmp::Reverse\<close>: the order of the wrapped type, reversed.\<close>

datatype 'a Reverse = Reverse 'a

instantiation Reverse :: (linorder) linorder
begin

definition less_eq_Reverse :: "'a Reverse \<Rightarrow> 'a Reverse \<Rightarrow> bool" where
  "less_eq_Reverse x y = (case x of Reverse a \<Rightarrow> case y of Reverse b \<Rightarrow> b \<le> a)"

definition less_Reverse :: "'a Reverse \<Rightarrow> 'a Reverse \<Rightarrow> bool" where
  "less_Reverse x y = (case x of Reverse a \<Rightarrow> case y of Reverse b \<Rightarrow> b < a)"

instance
  by standard (auto simp: less_eq_Reverse_def less_Reverse_def split: Reverse.splits)

end

section \<open>Strings\<close>

text \<open>A \<open>str\<close> is the list of its bytes. \<open>split_once\<close> cuts at the first separator, \<open>split\<close> at each.\<close>

fun split_once :: "char \<Rightarrow> string \<Rightarrow> (string \<times> string) option" where
  "split_once c [] = None"
| "split_once c (x # xs) =
     (if x = c then Some ([], xs) else map_option (\<lambda>(a, b). (x # a, b)) (split_once c xs))"

fun split_on :: "char \<Rightarrow> string \<Rightarrow> string list" where
  "split_on c [] = [[]]"
| "split_on c (x # xs) =
     (if x = c then [] # split_on c xs
      else (case split_on c xs of [] \<Rightarrow> [[x]] | p # ps \<Rightarrow> (x # p) # ps))"

definition is_ascii_digit :: "char \<Rightarrow> bool" where
  "is_ascii_digit c = (48 \<le> (of_char c :: nat) \<and> (of_char c :: nat) \<le> 57)"

definition to_digit :: "char \<Rightarrow> nat option" where
  "to_digit c = (if is_ascii_digit c then Some (of_char c - 48) else None)"

definition digit_char :: "nat \<Rightarrow> char" where
  "digit_char d = char_of (48 + d)"

text \<open>\<open>Display\<close> of an unsigned integer: decimal digits with no leading zero.\<close>

fun show_nat :: "nat \<Rightarrow> string" where
  "show_nat n = (if n < 10 then [digit_char n] else show_nat (n div 10) @ [digit_char (n mod 10)])"

text \<open>
  \<open>FromStr\<close> of an unsigned integer with largest value \<open>m\<close>: an optional leading \<open>+\<close>, then
  digits; the empty string, a lone sign, any other byte and a value above \<open>m\<close> are errors.
\<close>

datatype int_error = EmptyInt | InvalidDigit | PosOverflow

fun parse_digits :: "nat \<Rightarrow> nat \<Rightarrow> string \<Rightarrow> int_error + nat" where
  "parse_digits m acc [] = Inr acc"
| "parse_digits m acc (c # cs) =
     (case to_digit c of
        None \<Rightarrow> Inl InvalidDigit
      | Some d \<Rightarrow> (if m < acc * 10 + d then Inl PosOverflow else parse_digits m (acc * 10 + d) cs))"

definition uint_from_str :: "nat \<Rightarrow> string \<Rightarrow> int_error + nat" where
  "uint_from_str m s =
     (case s of
        [] \<Rightarrow> Inl EmptyInt
      | c # cs \<Rightarrow>
          if cs = [] \<and> (c = CHR ''+'' \<or> c = CHR ''-'') then Inl InvalidDigit
          else if c = CHR ''+'' then parse_digits m 0 cs
          else parse_digits m 0 s)"

definition u16_from_str :: "string \<Rightarrow> int_error + u16" where
  "u16_from_str s = and_then (uint_from_str 65535 s) (\<lambda>n. Inr (of_nat n))"

definition u16_to_string :: "u16 \<Rightarrow> string" where
  "u16_to_string w = show_nat (unat w)"

declare show_nat.simps [simp del]

section \<open>Lemmas: results\<close>

lemma and_then_simps [simp, std_simps]:
  "and_then (Inl e) f = Inl e" "and_then (Inr a) f = f a"
  by (simp_all add: and_then_def)

lemma map_err_simps [simp, std_simps]:
  "map_err g (Inl e) = Inl (g e)" "map_err g (Inr a) = Inr a"
  by (simp_all add: map_err_def)

lemma ok_or_simps [simp, std_simps]:
  "ok_or e None = Inl e" "ok_or e (Some a) = Inr a"
  by (simp_all add: ok_or_def)

lemma ensure_simps [simp, std_simps]:
  "ensure True e = Inr ()" "ensure False e = Inl e"
  by (simp_all add: ensure_def)

lemma and_then_Inr_iff: "and_then r f = Inr b \<longleftrightarrow> (\<exists>a. r = Inr a \<and> f a = Inr b)"
  by (cases r) simp_all

lemma map_err_Inr_iff [simp]: "map_err g r = Inr a \<longleftrightarrow> r = Inr a"
  by (cases r) simp_all

lemma ok_or_Inr_iff [simp]: "ok_or e v = Inr a \<longleftrightarrow> v = Some a"
  by (cases v) simp_all

lemma ensure_Inr_iff [simp]: "ensure b e = Inr u \<longleftrightarrow> b"
  by (simp add: ensure_def)

lemmas result_iffs = and_then_Inr_iff map_err_Inr_iff ok_or_Inr_iff ensure_Inr_iff

lemma collect_results_Inr_iff:
  "collect_results rs = Inr as \<longleftrightarrow> rs = map Inr as"
proof
  show "collect_results rs = Inr as \<Longrightarrow> rs = map Inr as"
    by (induction rs arbitrary: as) (auto split: sum.splits)
  show "rs = map Inr as \<Longrightarrow> collect_results rs = Inr as"
    by (induction as arbitrary: rs) simp_all
qed

lemma collect_results_map_Inr [simp]: "collect_results (map (\<lambda>x. Inr (f x)) xs) = Inr (map f xs)"
  by (induction xs) simp_all

section \<open>Lemmas: hash maps\<close>

lemma hm_get_Nil [simp, std_simps]: "hm_get [] k = None"
  by (simp add: hm_get_def)

lemma hm_get_insert [simp]: "hm_get (hm_insert k v m) k' = (if k' = k then Some v else hm_get m k')"
  by (simp add: hm_get_def hm_insert_def update_conv')

lemma hm_wf_Nil [simp, wf_intros]: "hm_wf []"
  by (simp add: hm_wf_def)

lemma hm_wf_insert [simp, wf_intros]: "hm_wf m \<Longrightarrow> hm_wf (hm_insert k v m)"
  by (simp add: hm_wf_def hm_insert_def distinct_update)

lemma hm_wf_retain [simp, wf_intros]: "hm_wf m \<Longrightarrow> hm_wf (hm_retain p m)"
  by (simp add: hm_wf_def hm_retain_def distinct_map_filter)

lemma hm_get_Some_in: "hm_wf m \<Longrightarrow> hm_get m k = Some v \<longleftrightarrow> (k, v) \<in> set m"
  by (simp add: hm_get_def hm_wf_def)

lemma in_hm_insert: "(k, f) \<in> set (hm_insert k' v m) \<Longrightarrow> (k = k' \<and> f = v) \<or> (k, f) \<in> set m"
  by (induction m) (auto simp: hm_insert_def split: if_splits)

lemma in_hm_retain [simp]: "(k, f) \<in> set (hm_retain p m) \<longleftrightarrow> (k, f) \<in> set m \<and> p k f"
  by (auto simp: hm_retain_def)

lemma hm_get_retain:
  assumes "hm_wf m"
  shows "hm_get (hm_retain p m) k =
    (case hm_get m k of None \<Rightarrow> None | Some v \<Rightarrow> if p k v then Some v else None)"
  using assms
  by (induction m)
    (auto simp: hm_get_def hm_retain_def hm_wf_def map_of_eq_None_iff split: option.splits)

lemma hm_get_remove [simp]: "hm_get (hm_remove k m) k' = (if k' = k then None else hm_get m k')"
  by (simp add: hm_get_def hm_remove_def delete_conv')

lemma hm_wf_remove [simp, wf_intros]: "hm_wf m \<Longrightarrow> hm_wf (hm_remove k m)"
  by (simp add: hm_wf_def hm_remove_def distinct_delete)

lemma hm_get_map [simp]: "hm_get (map (\<lambda>(k, v). (k, f k v)) m) k = map_option (f k) (hm_get m k)"
  by (induction m) (auto simp: hm_get_def)

lemma hm_wf_map [simp]: "hm_wf (map (\<lambda>(k, v). (k, f k v)) m) = hm_wf m"
  by (simp add: hm_wf_def comp_def case_prod_unfold)

lemma hm_get_all_None: "(\<And>k. hm_get m k = None) \<Longrightarrow> m = []"
  by (metis hm_get_def list.set_intros(1) neq_Nil_conv option.distinct(1) map_of_eq_None_iff image_eqI)

lemma hm_len_retain: "hm_len (hm_retain p m) \<le> hm_len m"
  by (simp add: hm_len_def hm_retain_def)

lemma hm_len_insert:
  "hm_len (hm_insert k v m) = (if hm_contains_key m k then hm_len m else Suc (hm_len m))"
  by (induction m)
    (auto simp: hm_len_def hm_insert_def hm_contains_key_def hm_get_def)

lemma hm_contains_key_iff: "hm_contains_key m k \<longleftrightarrow> k \<in> fst ` set m"
  by (simp add: hm_contains_key_def hm_get_def map_of_eq_None_iff)

lemma hm_len_card: "hm_wf m \<Longrightarrow> hm_len m = card (dom (hm_get m))"
  using distinct_card[of "map fst m"]
  by (simp add: hm_wf_def hm_len_def hm_get_def [abs_def] dom_map_of_conv_image_fst)

section \<open>Lemmas: iterators and slices\<close>

lemma max_by_key_from_in: "max_by_key_from f b xs \<in> insert b (set xs)"
proof (induction xs arbitrary: b)
  case Nil
  then show ?case by simp
next
  case (Cons x xs)
  from Cons.IH[of "if f b \<le> f x then x else b"] show ?case by (auto split: if_splits)
qed

lemma max_by_key_from_max:
  "f b \<le> f (max_by_key_from f b xs) \<and> (\<forall>x \<in> set xs. f x \<le> f (max_by_key_from f b xs))"
proof (induction xs arbitrary: b)
  case Nil
  then show ?case by simp
next
  case (Cons x xs)
  let ?b = "if f b \<le> f x then x else b"
  from Cons.IH[of ?b] show ?case
    by (auto split: if_splits intro: order_trans)
qed

lemma max_by_key_None [simp]: "max_by_key f xs = None \<longleftrightarrow> xs = []"
  by (simp add: max_by_key_def split: list.splits)

lemma max_by_key_Some:
  assumes "max_by_key f xs = Some m"
  shows "m \<in> set xs" "x \<in> set xs \<Longrightarrow> f x \<le> f m"
proof -
  from assms obtain y ys where xs: "xs = y # ys" and m: "m = max_by_key_from f y ys"
    by (auto simp: max_by_key_def split: list.splits)
  show "m \<in> set xs"
    using max_by_key_from_in[of f y ys] xs m by auto
  show "x \<in> set xs \<Longrightarrow> f x \<le> f m"
    using max_by_key_from_max[of f y ys] xs m by auto
qed

lemma max_by_key_Max:
  assumes "max_by_key f xs = Some m"
  shows "f m = Max (f ` set xs)"
  using max_by_key_Some[OF assms] by (intro Max_eqI [symmetric]) auto

lemma set_dedup [simp]: "set (dedup xs) = set xs"
  by (induction xs rule: dedup.induct) auto

lemma dedup_Nil_iff [simp]: "dedup xs = [] \<longleftrightarrow> xs = []"
  by (induction xs rule: dedup.induct) auto

lemma hd_dedup: "xs \<noteq> [] \<Longrightarrow> hd (dedup xs) = hd xs"
  by (induction xs rule: dedup.induct) auto

lemma dedup_sorted:
  "sorted (map f xs) \<Longrightarrow> sorted (map f (dedup xs))" for f :: "'a \<Rightarrow> 'b::linorder"
  by (induction xs rule: dedup.induct) auto

lemma dedup_distinct:
  fixes f :: "'a \<Rightarrow> 'b::linorder"
  assumes "sorted (map f xs)" and "inj_on f (set xs)"
  shows "distinct (dedup xs)"
  using assms
proof (induction xs rule: dedup.induct)
  case (3 x y xs)
  show ?case
  proof (cases "x = y")
    case True
    with 3 show ?thesis by simp
  next
    case False
    have "x \<notin> set (y # xs)"
    proof
      assume "x \<in> set (y # xs)"
      with False 3(3) have "f y \<le> f x" and "f x \<le> f y" by auto
      then have "f x = f y" by simp
      with 3(4) False show False by (auto simp: inj_on_def)
    qed
    with False 3 show ?thesis by (auto simp: inj_on_def)
  qed
qed simp_all

lemma dedup_Cons: "\<exists>ys. dedup (x # xs) = x # ys"
  by (induction xs) auto

lemma dedup_idem [simp]: "dedup (dedup xs) = dedup xs"
proof (induction xs rule: dedup.induct)
  case (3 x y xs)
  then show ?case using dedup_Cons[of y xs] by auto
qed simp_all

lemma dedup_id: "distinct xs \<Longrightarrow> dedup xs = xs"
  by (induction xs rule: dedup.induct) auto

text \<open>A list sorted by an injective key without repetitions is determined by its set.\<close>

lemma sorted_key_distinct_unique:
  fixes f :: "'a \<Rightarrow> 'b::linorder"
  assumes "sorted (map f xs)" "distinct xs" "sorted (map f ys)" "distinct ys"
    and eq: "set xs = set ys" and inj: "inj_on f (set xs)"
  shows "xs = ys"
proof -
  have "map f xs = map f ys"
    using assms by (intro sorted_distinct_set_unique) (auto simp: distinct_map)
  then show ?thesis
    using inj eq by (metis inj_on_map_eq_map sup.idem)
qed

lemma Reverse_le [simp]: "Reverse a \<le> Reverse b \<longleftrightarrow> b \<le> a"
  by (simp add: less_eq_Reverse_def)

lemma Reverse_less [simp]: "Reverse a < Reverse b \<longleftrightarrow> b < a"
  by (simp add: less_Reverse_def)

section \<open>Lemmas: strings and decimals\<close>

lemma split_once_None: "split_once c xs = None \<longleftrightarrow> c \<notin> set xs"
  by (induction xs) auto

lemma split_once_append: "c \<notin> set xs \<Longrightarrow> split_once c (xs @ c # ys) = Some (xs, ys)"
  by (induction xs) auto

lemma split_once_Some: "split_once c s = Some (a, b) \<Longrightarrow> s = a @ c # b \<and> c \<notin> set a"
  by (induction s arbitrary: a) (auto split: if_splits)

lemma split_on_nonempty [simp]: "split_on c xs \<noteq> []"
  by (induction xs) (auto split: list.splits)

lemma split_on_single: "c \<notin> set xs \<Longrightarrow> split_on c xs = [xs]"
  by (induction xs) auto

lemma split_on_append: "c \<notin> set xs \<Longrightarrow> split_on c (xs @ c # ys) = xs # split_on c ys"
  by (induction xs) auto

lemma split_on_single_iff: "split_on c s = [a] \<longleftrightarrow> s = a \<and> c \<notin> set a"
proof
  assume "split_on c s = [a]"
  then show "s = a \<and> c \<notin> set a"
    by (induction s arbitrary: a) (auto split: if_splits list.splits)
qed (auto simp: split_on_single)

lemma to_digit_digit_char [simp]: "d < 10 \<Longrightarrow> to_digit (digit_char d) = Some d"
  by (simp add: to_digit_def digit_char_def is_ascii_digit_def)

lemma is_ascii_digit_digit_char [simp]: "d < 10 \<Longrightarrow> is_ascii_digit (digit_char d)"
  by (simp add: digit_char_def is_ascii_digit_def)

lemma parse_digits_append:
  "parse_digits m acc (xs @ ys) = and_then (parse_digits m acc xs) (\<lambda>n. parse_digits m n ys)"
  by (induction xs arbitrary: acc) (auto split: option.splits)

lemma parse_digits_show_nat: "n \<le> m \<Longrightarrow> parse_digits m 0 (show_nat n) = Inr n"
proof (induction n rule: show_nat.induct)
  case (1 n)
  show ?case
  proof (cases "n < 10")
    case True
    with 1 show ?thesis by (simp add: show_nat.simps[of n])
  next
    case False
    with 1 have "parse_digits m 0 (show_nat (n div 10)) = Inr (n div 10)" by simp
    moreover have "n div 10 * 10 + n mod 10 = n" by simp
    ultimately show ?thesis
      using False 1(2) by (simp add: show_nat.simps[of n] parse_digits_append)
  qed
qed

lemma show_nat_digits: "c \<in> set (show_nat n) \<Longrightarrow> is_ascii_digit c"
proof (induction n rule: show_nat.induct)
  case (1 n)
  then show ?case
    by (subst (asm) (2) show_nat.simps) (auto split: if_splits)
qed

lemma show_nat_nonempty [simp]: "show_nat n \<noteq> []"
  by (subst show_nat.simps) simp

lemma not_digit_chars [simp]:
  "\<not> is_ascii_digit (CHR ''+'')" "\<not> is_ascii_digit (CHR ''-'')" "\<not> is_ascii_digit (CHR '':'')"
  "\<not> is_ascii_digit (CHR ''.'')" "\<not> is_ascii_digit (CHR ''/'')" "\<not> is_ascii_digit (CHR '' '')"
  by (simp_all add: is_ascii_digit_def)

lemma uint_from_str_show_nat: "n \<le> m \<Longrightarrow> uint_from_str m (show_nat n) = Inr n"
proof -
  assume le: "n \<le> m"
  obtain c cs where s: "show_nat n = c # cs"
    by (cases "show_nat n") auto
  have "is_ascii_digit c" using show_nat_digits[of c n] s by simp
  then have "c \<noteq> CHR ''+''" "c \<noteq> CHR ''-''" by auto
  then show ?thesis
    using parse_digits_show_nat[OF le] s by (simp add: uint_from_str_def)
qed

lemma u16_roundtrip [simp]: "u16_from_str (u16_to_string w) = Inr w"
proof -
  have "unat w < 2 ^ LENGTH(16)" by (rule unsigned_less)
  then have "unat w \<le> 65535" by simp
  then show ?thesis
    by (simp add: u16_from_str_def u16_to_string_def uint_from_str_show_nat)
qed

lemma u16_to_string_digits: "c \<in> set (u16_to_string w) \<Longrightarrow> is_ascii_digit c"
  by (auto simp: u16_to_string_def dest: show_nat_digits)

lemma u16_to_string_nonempty [simp]: "u16_to_string w \<noteq> []"
  by (simp add: u16_to_string_def)

end
