(* ===== verification/Ipnet.thy ===== *)
theory Ipnet
  imports Prelude
begin

unbundle bit_operations_syntax

text \<open>
  The interface of the \<open>ipnet\<close> crate as far as the rule language and the policy use it. The crate
  is not part of the repository, so its operations are fields of a parameter record and the
  documented behaviour the proofs rely on is the locale \<open>ipnet_api\<close>. The record \<open>ref_ipnet\<close>
  is a computing instance of the interface, and its interpretation shows the laws consistent.
\<close>

section \<open>Prefixes\<close>

text \<open>\<open>Ipv4Net\<close>: an address with a prefix length of at most 32 (\<open>Ipv4Net::new\<close> rejects longer ones).\<close>

datatype Ipv4Net = Ipv4Net (net_addr: ipv4addr) (net_prefix_len: u8)

definition net_valid :: "Ipv4Net \<Rightarrow> bool" where
  "net_valid n = (net_prefix_len n \<le> 32)"

definition is_net_char :: "char \<Rightarrow> bool" where
  "is_net_char c = (is_ascii_digit c \<or> c = CHR ''.'' \<or> c = CHR ''/'')"

record ipnet_ops =
  net_from_str :: "string \<Rightarrow> Ipv4Net option"
  net_to_string :: "Ipv4Net \<Rightarrow> string"
  net_default :: Ipv4Net
  net_from_addr :: "ipv4addr \<Rightarrow> Ipv4Net"
  net_trunc :: "Ipv4Net \<Rightarrow> Ipv4Net"
  net_contains :: "Ipv4Net \<Rightarrow> Ipv4Net \<Rightarrow> bool"

section \<open>The laws\<close>

locale ipnet_api =
  fixes I :: "'z ipnet_ops_scheme"
  assumes from_to_string: "net_valid n \<Longrightarrow> net_from_str I (net_to_string I n) = Some n"
    and to_string_chars: "c \<in> set (net_to_string I n) \<Longrightarrow> is_net_char c"
    and to_string_nonempty: "net_to_string I n \<noteq> []"
    and from_str_valid: "net_from_str I s = Some n \<Longrightarrow> net_valid n"
    and default_valid: "net_valid (net_default I)"
    and default_contains: "net_contains I (net_default I) q"
    and from_addr_len: "net_prefix_len (net_from_addr I a) = 32"
    and from_addr_trunc: "net_trunc I (net_from_addr I a) = net_from_addr I a"
    and from_addr_contains:
      "net_contains I (net_from_addr I a) (net_from_addr I b) \<longleftrightarrow> a = b"
    and trunc_idem: "net_trunc I (net_trunc I n) = net_trunc I n"
    and trunc_len: "net_prefix_len (net_trunc I n) = net_prefix_len n"
    and contains_trunc: "net_contains I (net_trunc I n) q = net_contains I n q"
begin

lemma trunc_valid [simp]: "net_valid (net_trunc I n) = net_valid n"
  by (simp add: net_valid_def trunc_len)

lemma from_addr_valid [simp]: "net_valid (net_from_addr I a)"
  by (simp add: net_valid_def from_addr_len)

text \<open>Prefixes that truncate to the same network are interchangeable for matching.\<close>

lemma trunc_eq_len: "net_trunc I p = net_trunc I q \<Longrightarrow> net_prefix_len p = net_prefix_len q"
  by (metis trunc_len)

lemma trunc_eq_contains: "net_trunc I p = net_trunc I q \<Longrightarrow> net_contains I p a = net_contains I q a"
  by (metis contains_trunc)

lemma to_string_inj:
  "net_valid m \<Longrightarrow> net_valid n \<Longrightarrow> net_to_string I m = net_to_string I n \<Longrightarrow> m = n"
  by (metis from_to_string option.inject)

end

lemma ipnet_api_cong:
  assumes "ipnet_api I"
    and "net_from_str J = net_from_str I" "net_to_string J = net_to_string I"
      "net_default J = net_default I" "net_from_addr J = net_from_addr I"
      "net_trunc J = net_trunc I" "net_contains J = net_contains I"
  shows "ipnet_api J"
  using assms unfolding ipnet_api_def by simp

section \<open>A computing instance\<close>

definition octet :: "nat \<Rightarrow> ipv4addr \<Rightarrow> nat" where
  "octet i a = unat a div 256 ^ i mod 256"

definition of_octets :: "nat \<Rightarrow> nat \<Rightarrow> nat \<Rightarrow> nat \<Rightarrow> ipv4addr" where
  "of_octets a b c d = of_nat (((a * 256 + b) * 256 + c) * 256 + d)"

definition ref_to_string :: "Ipv4Net \<Rightarrow> string" where
  "ref_to_string n =
     show_nat (octet 3 (net_addr n)) @ CHR ''.'' # show_nat (octet 2 (net_addr n)) @ CHR ''.'' #
     show_nat (octet 1 (net_addr n)) @ CHR ''.'' # show_nat (octet 0 (net_addr n)) @ CHR ''/'' #
     show_nat (unat (net_prefix_len n))"

definition ref_from_str :: "string \<Rightarrow> Ipv4Net option" where
  "ref_from_str s =
     (case split_once (CHR ''/'') s of
        None \<Rightarrow> None
      | Some (address, len) \<Rightarrow>
          (case (map (uint_from_str 255) (split_on (CHR ''.'') address), uint_from_str 32 len) of
             ([Inr a, Inr b, Inr c, Inr d], Inr l) \<Rightarrow> Some (Ipv4Net (of_octets a b c d) (of_nat l))
           | _ \<Rightarrow> None))"

definition net_mask :: "u8 \<Rightarrow> u32" where
  "net_mask len = NOT (mask (32 - unat len))"

definition ref_trunc :: "Ipv4Net \<Rightarrow> Ipv4Net" where
  "ref_trunc n = Ipv4Net (net_addr n AND net_mask (net_prefix_len n)) (net_prefix_len n)"

definition ref_contains :: "Ipv4Net \<Rightarrow> Ipv4Net \<Rightarrow> bool" where
  "ref_contains p q \<longleftrightarrow>
     net_prefix_len p \<le> net_prefix_len q \<and>
     net_addr q AND net_mask (net_prefix_len p) = net_addr p AND net_mask (net_prefix_len p)"

definition ref_ipnet :: ipnet_ops where
  "ref_ipnet =
     \<lparr>net_from_str = ref_from_str, net_to_string = ref_to_string, net_default = Ipv4Net 0 0,
      net_from_addr = (\<lambda>a. Ipv4Net a 32), net_trunc = ref_trunc, net_contains = ref_contains\<rparr>"

lemma of_octets_octet: "of_octets (octet 3 a) (octet 2 a) (octet 1 a) (octet 0 a) = a"
proof -
  have "unat a < 2 ^ LENGTH(32)" by (rule unsigned_less)
  then have "unat a div 16777216 mod 256 = unat a div 16777216"
    by simp
  moreover have "unat a div 65536 = unat a div 16777216 * 256 + unat a div 65536 mod 256"
    using div_mult_mod_eq[of "unat a div 65536" 256] by (simp add: div_mult2_eq [symmetric])
  moreover have "unat a div 256 = unat a div 65536 * 256 + unat a div 256 mod 256"
    using div_mult_mod_eq[of "unat a div 256" 256] by (simp add: div_mult2_eq [symmetric])
  ultimately have "((octet 3 a * 256 + octet 2 a) * 256 + octet 1 a) * 256 + octet 0 a = unat a"
    by (simp add: octet_def)
  then show ?thesis by (simp add: of_octets_def)
qed

lemma octet_le: "octet i a \<le> 255"
  using mod_less_divisor[of 256 "unat a div 256 ^ i"] by (simp add: octet_def)

lemma sep_notin_show_nat [simp]:
  "CHR ''.'' \<notin> set (show_nat n)" "CHR ''/'' \<notin> set (show_nat n)"
  using show_nat_digits not_digit_chars by blast+

lemma ref_from_to_string:
  assumes "net_valid n"
  shows "ref_from_str (ref_to_string n) = Some n"
proof -
  let ?o = "\<lambda>i. show_nat (octet i (net_addr n))"
  have len: "unat (net_prefix_len n) \<le> 32"
    using assms by (simp add: net_valid_def word_le_nat_alt)
  have "split_once (CHR ''/'') (ref_to_string n) =
      Some (?o 3 @ CHR ''.'' # ?o 2 @ CHR ''.'' # ?o 1 @ CHR ''.'' # ?o 0,
            show_nat (unat (net_prefix_len n)))"
    using split_once_append[of "CHR ''/''"
        "?o 3 @ CHR ''.'' # ?o 2 @ CHR ''.'' # ?o 1 @ CHR ''.'' # ?o 0"
        "show_nat (unat (net_prefix_len n))"]
    by (simp add: ref_to_string_def)
  moreover have "split_on (CHR ''.'') (?o 3 @ CHR ''.'' # ?o 2 @ CHR ''.'' # ?o 1 @ CHR ''.'' # ?o 0) =
      [?o 3, ?o 2, ?o 1, ?o 0]"
    by (simp add: split_on_append split_on_single)
  ultimately show ?thesis
    using len by (simp add: ref_from_str_def uint_from_str_show_nat octet_le
        of_octets_octet [simplified])
qed

lemma parse_digits_le: "acc \<le> m \<Longrightarrow> parse_digits m acc s = Inr n \<Longrightarrow> n \<le> m"
proof (induction s arbitrary: acc)
  case (Cons c s)
  then obtain d where "to_digit c = Some d" "acc * 10 + d \<le> m" "parse_digits m (acc * 10 + d) s = Inr n"
    by (auto simp: not_less split: option.splits if_splits)
  with Cons.IH show ?case by blast
qed simp

lemma uint_from_str_le: "uint_from_str m s = Inr n \<Longrightarrow> n \<le> m"
  using parse_digits_le[of 0 m _ n]
  by (simp add: uint_from_str_def del: parse_digits.simps split: list.splits if_splits)

lemma ref_from_str_valid:
  assumes "ref_from_str s = Some n"
  shows "net_valid n"
proof -
  from assms obtain l where "net_prefix_len n = of_nat l" and "l \<le> 32"
    by (auto simp: ref_from_str_def dest!: uint_from_str_le
        split: option.splits prod.splits list.splits sum.splits)
  then show ?thesis
    by (simp add: net_valid_def word_le_nat_alt unat_of_nat)
qed

lemma net_mask_32 [simp]: "net_mask 32 = - 1"
  by (simp add: net_mask_def)

lemma net_mask_0 [simp]: "net_mask 0 = 0"
  by (simp add: net_mask_def mask_eq_exp_minus_1)

lemma ref_to_string_chars: "c \<in> set (ref_to_string n) \<Longrightarrow> is_net_char c"
  by (auto simp: ref_to_string_def is_net_char_def dest: show_nat_digits)

interpretation ref_net: ipnet_api ref_ipnet
proof
  fix n
  show "net_valid n \<Longrightarrow> net_from_str ref_ipnet (net_to_string ref_ipnet n) = Some n"
    by (simp add: ref_ipnet_def ref_from_to_string)
next
  fix c n
  show "c \<in> set (net_to_string ref_ipnet n) \<Longrightarrow> is_net_char c"
    by (simp add: ref_ipnet_def ref_to_string_chars)
next
  fix s n
  show "net_from_str ref_ipnet s = Some n \<Longrightarrow> net_valid n"
    by (simp add: ref_ipnet_def ref_from_str_valid)
qed (simp_all add: ref_ipnet_def ref_to_string_def net_valid_def ref_contains_def ref_trunc_def
    and.assoc eq_commute)

end
