(* ===== verification/Rule.thy ===== *)
theory Rule
  imports Ipnet
begin

text \<open>
  The rule language (\<open>lib/proxy/rule.rs\<close> and its grammar \<open>lib/proxy/rule.pest\<close>): the syntax
  tree, the parser, the printer and normalization. The grammar is translated rule by rule as a
  parsing expression grammar: choice is ordered, repetition is greedy and an optional group that
  fails consumes nothing. A \<open>panic\<close> of the source is the error \<open>RulePanic\<close>.
\<close>

section \<open>Syntax tree\<close>

datatype Direction = In | Out

datatype Protocol = Tcp | Udp | Icmp

record PortRange =
  pr_start :: u16
  pr_end :: u16

record Filter =
  protocol :: "Protocol option"
  destination_port_range :: "PortRange option"

datatype Target = Prefix Ipv4Net | Host | Peers

datatype Rule = Stateless Target | Stateful Direction Target Filter

definition Filter_default :: Filter where
  "Filter_default = \<lparr>protocol = None, destination_port_range = None\<rparr>"

datatype rule_error =
    InvalidRuleSyntax
  | InvalidTarget string
  | VariantNotFound
  | InvalidDestinationPort string
  | InvalidPortBound string
  | PortBoundZero
  | PortRangeReversed
  | PortRequiresProtocol
  | RulePanic

section \<open>Port ranges\<close>

definition PortRange_new :: "u16 \<Rightarrow> u16 \<Rightarrow> rule_error + PortRange" where
  "PortRange_new start end' =
     and_then (ensure (start \<noteq> 0 \<and> end' \<noteq> 0) PortBoundZero)
       (\<lambda>_. and_then (ensure (start \<le> end') PortRangeReversed)
         (\<lambda>_. Inr \<lparr>pr_start = start, pr_end = end'\<rparr>))"

definition PortRange_contains :: "PortRange \<Rightarrow> u16 \<Rightarrow> bool" where
  "PortRange_contains r port \<longleftrightarrow> pr_start r \<le> port \<and> port \<le> pr_end r"

definition PortRange_width :: "PortRange \<Rightarrow> u16" where
  "PortRange_width r = pr_end r - pr_start r"

definition PortRange_from_str :: "string \<Rightarrow> rule_error + PortRange" where
  "PortRange_from_str input =
     and_then (ensure (list_all (\<lambda>b. is_ascii_digit b \<or> b = CHR '':'') input)
                (InvalidDestinationPort input))
       (\<lambda>_. let (start, end') = (case split_once (CHR '':'') input of
                                    Some p \<Rightarrow> p | None \<Rightarrow> (input, input));
                parse_bound = (\<lambda>bound. map_err (\<lambda>_. InvalidPortBound bound) (u16_from_str bound))
            in and_then (parse_bound start)
                 (\<lambda>a. and_then (parse_bound end') (\<lambda>b. PortRange_new a b)))"

definition PortRange_to_string :: "PortRange \<Rightarrow> string" where
  "PortRange_to_string r =
     (if pr_start r = pr_end r then u16_to_string (pr_start r)
      else u16_to_string (pr_start r) @ '':'' @ u16_to_string (pr_end r))"

section \<open>Directions, protocols and targets\<close>

fun Direction_to_string :: "Direction \<Rightarrow> string" where
  "Direction_to_string In = ''in''"
| "Direction_to_string Out = ''out''"

definition Direction_from_str :: "string \<Rightarrow> rule_error + Direction" where
  "Direction_from_str s =
     (if s = ''in'' then Inr In else if s = ''out'' then Inr Out else Inl VariantNotFound)"

fun Protocol_to_string :: "Protocol \<Rightarrow> string" where
  "Protocol_to_string Tcp = ''tcp''"
| "Protocol_to_string Udp = ''udp''"
| "Protocol_to_string Icmp = ''icmp''"

definition Protocol_from_str :: "string \<Rightarrow> rule_error + Protocol" where
  "Protocol_from_str s =
     (if s = ''tcp'' then Inr Tcp else if s = ''udp'' then Inr Udp
      else if s = ''icmp'' then Inr Icmp else Inl VariantNotFound)"

definition Target_from_str :: "'z ipnet_ops_scheme \<Rightarrow> string \<Rightarrow> Target option" where
  "Target_from_str I input =
     (if input = ''@host'' then Some Host
      else if input = ''@peers'' then Some Peers
      else map_option Prefix (net_from_str I input))"

fun Target_to_string :: "'z ipnet_ops_scheme \<Rightarrow> Target \<Rightarrow> string" where
  "Target_to_string I (Prefix prefix) = net_to_string I prefix"
| "Target_to_string I Host = ''@host''"
| "Target_to_string I Peers = ''@peers''"

fun Target_normalized :: "'z ipnet_ops_scheme \<Rightarrow> Target \<Rightarrow> Target" where
  "Target_normalized I (Prefix prefix) = Prefix (net_trunc I prefix)"
| "Target_normalized I Host = Host"
| "Target_normalized I Peers = Peers"

section \<open>The grammar\<close>

text \<open>The terminal matchers: a literal, and one or more characters of a class.\<close>

fun lit :: "string \<Rightarrow> string \<Rightarrow> string option" where
  "lit [] s = Some s"
| "lit (c # cs) [] = None"
| "lit (c # cs) (x # xs) = (if c = x then lit cs xs else None)"

definition many1 :: "(char \<Rightarrow> bool) \<Rightarrow> string \<Rightarrow> (string \<times> string) option" where
  "many1 p s = (if takeWhile p s = [] then None else Some (takeWhile p s, dropWhile p s))"

definition spaces1 :: "string \<Rightarrow> string option" where
  "spaces1 s = map_option snd (many1 (\<lambda>c. c = CHR '' '') s)"

datatype SyntaxField =
    FDirection string | FProtocolName string | FTarget string | FDestinationPort string

datatype SyntaxBody = StatefulBody "SyntaxField list" | TargetBody string

definition g_direction :: "string \<Rightarrow> (string \<times> string) option" where
  "g_direction s =
     (case lit ''in'' s of Some r \<Rightarrow> Some (''in'', r)
      | None \<Rightarrow> map_option (Pair ''out'') (lit ''out'' s))"

definition g_protocol_name :: "string \<Rightarrow> (string \<times> string) option" where
  "g_protocol_name s =
     (case lit ''tcp'' s of Some r \<Rightarrow> Some (''tcp'', r)
      | None \<Rightarrow>
          (case lit ''udp'' s of Some r \<Rightarrow> Some (''udp'', r)
           | None \<Rightarrow> map_option (Pair ''icmp'') (lit ''icmp'' s)))"

definition g_protocol :: "string \<Rightarrow> (SyntaxField \<times> string) option" where
  "g_protocol s =
     Option.bind (lit ''proto'' s) (\<lambda>r. Option.bind (spaces1 r)
       (\<lambda>r. map_option (\<lambda>(t, r). (FProtocolName t, r)) (g_protocol_name r)))"

definition g_destination_port :: "string \<Rightarrow> (string \<times> string) option" where
  "g_destination_port s =
     Option.bind (many1 is_ascii_digit s) (\<lambda>(a, r).
       case Option.bind (lit '':'' r) (many1 is_ascii_digit) of
         None \<Rightarrow> Some (a, r)
       | Some (b, r') \<Rightarrow> Some (a @ '':'' @ b, r'))"

definition g_port :: "string \<Rightarrow> (SyntaxField \<times> string) option" where
  "g_port s =
     Option.bind (lit ''port'' s) (\<lambda>r. Option.bind (spaces1 r)
       (\<lambda>r. map_option (\<lambda>(t, r). (FDestinationPort t, r)) (g_destination_port r)))"

definition g_target :: "string \<Rightarrow> (string \<times> string) option" where
  "g_target s =
     (case lit ''@host'' s of Some r \<Rightarrow> Some (''@host'', r)
      | None \<Rightarrow>
          (case lit ''@peers'' s of Some r \<Rightarrow> Some (''@peers'', r)
           | None \<Rightarrow> many1 is_net_char s))"

definition g_target_field :: "string \<Rightarrow> (SyntaxField \<times> string) option" where
  "g_target_field s = map_option (\<lambda>(t, r). (FTarget t, r)) (g_target s)"

text \<open>\<open>(" "+ ~ X)?\<close>: when \<open>X\<close> fails after the spaces, the spaces are given back.\<close>

definition g_opt ::
  "(string \<Rightarrow> (SyntaxField \<times> string) option) \<Rightarrow> string \<Rightarrow> SyntaxField list \<times> string" where
  "g_opt X s =
     (case Option.bind (spaces1 s) X of None \<Rightarrow> ([], s) | Some (f, r) \<Rightarrow> ([f], r))"

definition g_stateful :: "string \<Rightarrow> (SyntaxField list \<times> string) option" where
  "g_stateful s =
     map_option (\<lambda>(d, s1).
       let (p, s2) = g_opt g_protocol s1;
           (t, s3) = g_opt g_target_field s2;
           (q, s4) = g_opt g_port s3
       in (FDirection d # p @ t @ q, s4)) (g_direction s)"

definition g_rule :: "string \<Rightarrow> SyntaxBody option" where
  "g_rule s =
     Option.bind
       (case g_stateful s of
          Some (flds, r) \<Rightarrow> Some (StatefulBody flds, r)
        | None \<Rightarrow> map_option (\<lambda>(t, r). (TargetBody t, r)) (g_target s))
       (\<lambda>(body, r). if r = [] then Some body else None)"

section \<open>Parsing\<close>

fun field_str :: "SyntaxField \<Rightarrow> string" where
  "field_str (FDirection s) = s"
| "field_str (FProtocolName s) = s"
| "field_str (FTarget s) = s"
| "field_str (FDestinationPort s) = s"

definition parse_target :: "'z ipnet_ops_scheme \<Rightarrow> string \<Rightarrow> rule_error + Target" where
  "parse_target I s = ok_or (InvalidTarget s) (Target_from_str I s)"

text \<open>The loop over the remaining fields; the accumulator is the target and the filter so far.\<close>

fun parse_fields ::
  "'z ipnet_ops_scheme \<Rightarrow> Target \<Rightarrow> Filter \<Rightarrow> SyntaxField list \<Rightarrow> rule_error + (Target \<times> Filter)"
where
  "parse_fields I target flt [] = Inr (target, flt)"
| "parse_fields I target flt (FProtocolName s # flds) =
     and_then (Protocol_from_str s)
       (\<lambda>p. parse_fields I target (flt\<lparr>protocol := Some p\<rparr>) flds)"
| "parse_fields I target flt (FTarget s # flds) =
     and_then (parse_target I s) (\<lambda>t. parse_fields I t flt flds)"
| "parse_fields I target flt (FDestinationPort s # flds) =
     and_then (PortRange_from_str s)
       (\<lambda>r. parse_fields I target (flt\<lparr>destination_port_range := Some r\<rparr>) flds)"
| "parse_fields I target flt (FDirection s # flds) = Inl RulePanic"

definition parse_stateful :: "'z ipnet_ops_scheme \<Rightarrow> SyntaxField list \<Rightarrow> rule_error + Rule" where
  "parse_stateful I flds =
     (case flds of
        [] \<Rightarrow> Inl RulePanic
      | direction_field # rest \<Rightarrow>
          and_then (Direction_from_str (field_str direction_field)) (\<lambda>direction.
            and_then (parse_fields I (Prefix (net_default I)) Filter_default rest)
              (\<lambda>(target, flt).
                and_then (ensure (destination_port_range flt = None \<or>
                                  protocol flt = Some Tcp \<or> protocol flt = Some Udp)
                                 PortRequiresProtocol)
                  (\<lambda>_. Inr (Stateful direction target flt)))))"

definition Rule_parse :: "'z ipnet_ops_scheme \<Rightarrow> string \<Rightarrow> rule_error + Rule" where
  "Rule_parse I input =
     and_then (ok_or InvalidRuleSyntax (g_rule input)) (\<lambda>body.
       case body of
         TargetBody t \<Rightarrow> and_then (parse_target I t) (\<lambda>t. Inr (Stateless t))
       | StatefulBody flds \<Rightarrow> parse_stateful I flds)"

section \<open>Printing and normalization\<close>

fun Rule_to_string :: "'z ipnet_ops_scheme \<Rightarrow> Rule \<Rightarrow> string" where
  "Rule_to_string I (Stateless target) = Target_to_string I target"
| "Rule_to_string I (Stateful direction target flt) =
     Direction_to_string direction @ '' '' @
     (case protocol flt of None \<Rightarrow> [] | Some p \<Rightarrow> ''proto '' @ Protocol_to_string p @ '' '') @
     Target_to_string I target @
     (case destination_port_range flt of None \<Rightarrow> [] | Some r \<Rightarrow> '' port '' @ PortRange_to_string r)"

fun Rule_normalized :: "'z ipnet_ops_scheme \<Rightarrow> Rule \<Rightarrow> Rule" where
  "Rule_normalized I (Stateless target) = Stateless (Target_normalized I target)"
| "Rule_normalized I (Stateful direction target flt) =
     Stateful direction (Target_normalized I target) flt"

section \<open>Well-formed rules\<close>

definition PortRange_wf :: "PortRange \<Rightarrow> bool" where
  "PortRange_wf r \<longleftrightarrow> pr_start r \<noteq> 0 \<and> pr_start r \<le> pr_end r"

definition Filter_wf :: "Filter \<Rightarrow> bool" where
  "Filter_wf f \<longleftrightarrow>
     (case destination_port_range f of
        None \<Rightarrow> True
      | Some r \<Rightarrow> PortRange_wf r \<and> (protocol f = Some Tcp \<or> protocol f = Some Udp))"

fun Target_wf :: "Target \<Rightarrow> bool" where
  "Target_wf (Prefix n) = net_valid n"
| "Target_wf Host = True"
| "Target_wf Peers = True"

fun Rule_wf :: "Rule \<Rightarrow> bool" where
  "Rule_wf (Stateless target) = Target_wf target"
| "Rule_wf (Stateful direction target flt) = (Target_wf target \<and> Filter_wf flt)"

section \<open>Lemmas: port ranges\<close>

lemma PortRange_new_Inr:
  "PortRange_new a b = Inr r \<longleftrightarrow> PortRange_wf r \<and> r = \<lparr>pr_start = a, pr_end = b\<rparr>"
  by (auto simp: PortRange_new_def PortRange_wf_def result_iffs)

lemma PortRange_new_wf: "PortRange_wf r \<Longrightarrow> PortRange_new (pr_start r) (pr_end r) = Inr r"
  by (simp add: PortRange_new_Inr)

lemma PortRange_from_str_wf: "PortRange_from_str s = Inr r \<Longrightarrow> PortRange_wf r"
  by (auto simp: PortRange_from_str_def result_iffs PortRange_new_Inr Let_def split: prod.splits)

lemma colon_notin_u16 [simp]: "CHR '':'' \<notin> set (u16_to_string w)"
  by (metis not_digit_chars(3) u16_to_string_digits)

lemma PortRange_roundtrip: "PortRange_wf r \<Longrightarrow> PortRange_from_str (PortRange_to_string r) = Inr r"
proof -
  assume wf: "PortRange_wf r"
  have digits: "list_all (\<lambda>b. is_ascii_digit b \<or> b = CHR '':'') (PortRange_to_string r)"
    by (auto simp: PortRange_to_string_def list_all_iff dest: u16_to_string_digits)
  show ?thesis
  proof (cases "pr_start r = pr_end r")
    case True
    then have "split_once (CHR '':'') (PortRange_to_string r) = None"
      by (simp add: PortRange_to_string_def split_once_None)
    with True digits PortRange_new_wf[OF wf] show ?thesis
      by (simp add: PortRange_from_str_def PortRange_to_string_def)
  next
    case False
    then have "split_once (CHR '':'') (PortRange_to_string r) =
        Some (u16_to_string (pr_start r), u16_to_string (pr_end r))"
      by (simp add: PortRange_to_string_def split_once_append)
    with digits PortRange_new_wf[OF wf] show ?thesis
      by (simp add: PortRange_from_str_def)
  qed
qed

section \<open>Lemmas: the grammar\<close>

lemma lit_append [simp]: "lit xs (xs @ ys) = Some ys"
  by (induction xs) simp_all

lemma many1_append:
  assumes "xs \<noteq> []" "\<forall>c \<in> set xs. p c" "r = [] \<or> \<not> p (hd r)"
  shows "many1 p (xs @ r) = Some (xs, r)"
proof -
  have "takeWhile p (xs @ r) = xs" "dropWhile p (xs @ r) = r"
    using assms(2,3) by (auto simp: takeWhile_append2 dropWhile_append2) (cases r; simp)+
  with assms(1) show ?thesis by (simp add: many1_def)
qed

lemma spaces1_single: "s \<noteq> [] \<Longrightarrow> hd s \<noteq> CHR '' '' \<Longrightarrow> spaces1 (CHR '' '' # s) = Some s"
  by (cases s) (simp_all add: spaces1_def many1_def)

lemma spaces1_Nil [simp]: "spaces1 [] = None"
  by (simp add: spaces1_def many1_def)

lemma net_char_facts:
  assumes "is_net_char c"
  shows "c \<noteq> CHR ''@''" "c \<noteq> CHR ''i''" "c \<noteq> CHR ''o''" "c \<noteq> CHR ''p''" "c \<noteq> CHR '' ''"
  using assms by (auto simp: is_net_char_def is_ascii_digit_def)

text \<open>What the printed form of a target looks like to the grammar.\<close>

definition target_text :: "string \<Rightarrow> bool" where
  "target_text t \<longleftrightarrow> t = ''@host'' \<or> t = ''@peers'' \<or> (t \<noteq> [] \<and> (\<forall>c \<in> set t. is_net_char c))"

lemma target_text_hd:
  assumes "target_text t"
  obtains c cs where "t = c # cs" "c \<noteq> CHR ''i''" "c \<noteq> CHR ''o''" "c \<noteq> CHR ''p''" "c \<noteq> CHR '' ''"
  using assms by (cases t) (auto simp: target_text_def dest: net_char_facts)

lemma g_target_text:
  assumes "target_text t" and r: "r = [] \<or> hd r = CHR '' ''"
  shows "g_target (t @ r) = Some (t, r)"
proof -
  from assms(1) consider "t = ''@host''" | "t = ''@peers''"
    | "t \<noteq> []" "\<forall>c \<in> set t. is_net_char c"
    by (auto simp: target_text_def)
  then show ?thesis
  proof cases
    case 3
    then obtain c cs where t: "t = c # cs" "c \<noteq> CHR ''@''"
      by (cases t) (auto dest: net_char_facts)
    have "r = [] \<or> \<not> is_net_char (hd r)"
      using r net_char_facts(5) by metis
    with 3 have "many1 is_net_char (t @ r) = Some (t, r)"
      by (intro many1_append) auto
    with t show ?thesis by (simp add: g_target_def)
  qed (simp_all add: g_target_def)
qed

lemma g_direction_text [simp]:
  "g_direction (Direction_to_string d @ r) = Some (Direction_to_string d, r)"
  by (cases d) (simp_all add: g_direction_def)

lemma g_protocol_text:
  "g_protocol (''proto '' @ Protocol_to_string p @ r) = Some (FProtocolName (Protocol_to_string p), r)"
  by (cases p) (simp_all add: g_protocol_def g_protocol_name_def spaces1_single)

lemma g_destination_port_text:
  "g_destination_port (PortRange_to_string q) = Some (PortRange_to_string q, [])"
proof (cases "pr_start q = pr_end q")
  case True
  have "many1 is_ascii_digit (u16_to_string (pr_end q) @ []) = Some (u16_to_string (pr_end q), [])"
    by (rule many1_append) (auto dest: u16_to_string_digits)
  with True show ?thesis by (simp add: g_destination_port_def PortRange_to_string_def)
next
  case False
  have "many1 is_ascii_digit (u16_to_string (pr_start q) @ '':'' @ u16_to_string (pr_end q)) =
      Some (u16_to_string (pr_start q), '':'' @ u16_to_string (pr_end q))"
    by (rule many1_append) (auto dest: u16_to_string_digits)
  moreover have "many1 is_ascii_digit (u16_to_string (pr_end q) @ []) = Some (u16_to_string (pr_end q), [])"
    by (rule many1_append) (auto dest: u16_to_string_digits)
  ultimately show ?thesis
    using False by (simp add: g_destination_port_def PortRange_to_string_def)
qed

lemma PortRange_to_string_hd: "PortRange_to_string q \<noteq> [] \<and> hd (PortRange_to_string q) \<noteq> CHR '' ''"
proof -
  obtain c cs where s: "u16_to_string (pr_start q) = c # cs"
    by (cases "u16_to_string (pr_start q)") auto
  then have "is_ascii_digit c" using u16_to_string_digits[of c "pr_start q"] by simp
  then show ?thesis using s not_digit_chars(6) by (auto simp: PortRange_to_string_def)
qed

lemma g_port_text:
  "g_port (''port '' @ PortRange_to_string q) = Some (FDestinationPort (PortRange_to_string q), [])"
  using PortRange_to_string_hd[of q]
  by (simp add: g_port_def spaces1_single g_destination_port_text)

lemma g_opt_skip:
  "s = CHR '' '' # c # cs \<Longrightarrow> c \<noteq> CHR '' '' \<Longrightarrow> X (c # cs) = None \<Longrightarrow> g_opt X s = ([], s)"
  by (simp add: g_opt_def spaces1_single)

lemma g_opt_take:
  "s = CHR '' '' # u \<Longrightarrow> u \<noteq> [] \<Longrightarrow> hd u \<noteq> CHR '' '' \<Longrightarrow> X u = Some (f, r) \<Longrightarrow> g_opt X s = ([f], r)"
  by (simp add: g_opt_def spaces1_single)

lemma g_opt_Nil [simp]: "g_opt X [] = ([], [])"
  by (simp add: g_opt_def)

text \<open>The fields the grammar yields on a printed directional rule.\<close>

definition protocol_fields :: "Filter \<Rightarrow> SyntaxField list" where
  "protocol_fields f = (case protocol f of None \<Rightarrow> [] | Some p \<Rightarrow> [FProtocolName (Protocol_to_string p)])"

definition port_fields :: "Filter \<Rightarrow> SyntaxField list" where
  "port_fields f = (case destination_port_range f of None \<Rightarrow> []
     | Some r \<Rightarrow> [FDestinationPort (PortRange_to_string r)])"

lemma g_stateful_text:
  assumes t: "target_text t"
  shows "g_stateful (Direction_to_string d @ '' '' @
      (case protocol f of None \<Rightarrow> [] | Some p \<Rightarrow> ''proto '' @ Protocol_to_string p @ '' '') @ t @
      (case destination_port_range f of None \<Rightarrow> [] | Some r \<Rightarrow> '' port '' @ PortRange_to_string r)) =
    Some (FDirection (Direction_to_string d) # protocol_fields f @ FTarget t # port_fields f, [])"
    (is "g_stateful (_ @ '' '' @ ?p @ t @ ?q) = _")
proof -
  obtain c cs where c: "t = c # cs" "c \<noteq> CHR ''p''" "c \<noteq> CHR '' ''"
    using target_text_hd[OF t] by metis
  have p: "g_opt g_protocol ('' '' @ ?p @ t @ ?q) = (protocol_fields f, '' '' @ t @ ?q)"
  proof (cases "protocol f")
    case None
    with c show ?thesis
      by (simp add: protocol_fields_def g_opt_skip g_protocol_def)
  next
    case (Some p)
    have "g_protocol (''proto '' @ Protocol_to_string p @ '' '' @ t @ ?q) =
        Some (FProtocolName (Protocol_to_string p), '' '' @ t @ ?q)"
      by (rule g_protocol_text)
    then have "g_opt g_protocol ('' '' @ ''proto '' @ Protocol_to_string p @ '' '' @ t @ ?q) =
        ([FProtocolName (Protocol_to_string p)], '' '' @ t @ ?q)"
      by (intro g_opt_take) simp_all
    with Some show ?thesis by (simp add: protocol_fields_def)
  qed
  have "g_target (t @ ?q) = Some (t, ?q)"
    by (rule g_target_text[OF t]) (simp split: option.splits)
  then have t': "g_opt g_target_field ('' '' @ t @ ?q) = ([FTarget t], ?q)"
    using c by (intro g_opt_take) (simp_all add: g_target_field_def)
  have q: "g_opt g_port ?q = (port_fields f, [])"
  proof (cases "destination_port_range f")
    case (Some r)
    have "g_opt g_port ('' '' @ ''port '' @ PortRange_to_string r) =
        ([FDestinationPort (PortRange_to_string r)], [])"
      by (rule g_opt_take[where u = "''port '' @ PortRange_to_string r"])
        (simp_all add: g_port_text [simplified])
    with Some show ?thesis by (simp add: port_fields_def)
  qed (simp add: port_fields_def)
  show ?thesis
    by (simp add: g_stateful_def p [simplified] t' [simplified] q)
qed

lemma g_stateful_target_text: "target_text t \<Longrightarrow> g_stateful t = None"
  by (erule target_text_hd) (simp add: g_stateful_def g_direction_def)

lemma parse_fields_text:
  assumes wf: "Filter_wf f" and t: "parse_target I t = Inr target"
  shows "parse_fields I t0 Filter_default (protocol_fields f @ FTarget t # port_fields f) =
    Inr (target, f)"
proof -
  have prot: "Protocol_from_str (Protocol_to_string p) = Inr p" for p
    by (cases p) (simp_all add: Protocol_from_str_def)
  show ?thesis
    using wf t PortRange_roundtrip
    by (cases f; cases "protocol f"; cases "destination_port_range f")
      (auto simp: Filter_wf_def protocol_fields_def port_fields_def Filter_default_def prot)
qed

section \<open>The grammar never yields a field the parser does not expect\<close>

definition inner_field :: "SyntaxField \<Rightarrow> bool" where
  "inner_field f \<longleftrightarrow> (case f of FDirection _ \<Rightarrow> False | _ \<Rightarrow> True)"

lemma g_opt_inner:
  assumes "\<And>s f r. X s = Some (f, r) \<Longrightarrow> inner_field f"
  shows "\<forall>f \<in> set (fst (g_opt X s)). inner_field f"
  using assms by (auto simp: g_opt_def split: option.splits prod.splits bind_splits)

lemma g_fields_inner:
  "g_protocol s = Some (f, r) \<Longrightarrow> inner_field f"
  "g_target_field s = Some (f, r) \<Longrightarrow> inner_field f"
  "g_port s = Some (f, r) \<Longrightarrow> inner_field f"
  by (auto simp: g_protocol_def g_target_field_def g_port_def inner_field_def split: bind_splits)

lemma g_stateful_shape:
  assumes "g_stateful s = Some (flds, r)"
  shows "\<exists>d fs. flds = FDirection d # fs \<and> (\<forall>f \<in> set fs. inner_field f)"
proof -
  from assms obtain d s1 where "g_direction s = Some (d, s1)"
    and "flds = FDirection d # fst (g_opt g_protocol s1)
      @ fst (g_opt g_target_field (snd (g_opt g_protocol s1)))
      @ fst (g_opt g_port (snd (g_opt g_target_field (snd (g_opt g_protocol s1)))))"
    by (auto simp: g_stateful_def Let_def case_prod_unfold)
  then show ?thesis
    using g_opt_inner[OF g_fields_inner(1)] g_opt_inner[OF g_fields_inner(2)]
      g_opt_inner[OF g_fields_inner(3)] by auto
qed

lemma PortRange_from_str_no_panic: "PortRange_from_str s \<noteq> Inl RulePanic"
  by (auto simp: PortRange_from_str_def PortRange_new_def Let_def and_then_def map_err_def ensure_def
      split: prod.splits sum.splits if_splits)

lemma parse_fields_no_panic:
  "\<forall>f \<in> set flds. inner_field f \<Longrightarrow> parse_fields I t flt flds \<noteq> Inl RulePanic"
proof (induction I t flt flds rule: parse_fields.induct)
  case (2 I target flt s flds)
  then show ?case by (auto simp: Protocol_from_str_def)
next
  case (3 I target flt s flds)
  then show ?case by (auto simp: parse_target_def ok_or_def split: option.splits)
next
  case (4 I target flt s flds)
  then show ?case
    using PortRange_from_str_no_panic[of s] by (cases "PortRange_from_str s") auto
qed (simp_all add: inner_field_def)

lemma parse_fields_wf:
  assumes "parse_fields I t flt flds = Inr (t', flt')"
    and "\<And>n s. net_from_str I s = Some n \<Longrightarrow> net_valid n"
    and "Target_wf t" "\<forall>r. destination_port_range flt = Some r \<longrightarrow> PortRange_wf r"
  shows "Target_wf t' \<and> (\<forall>r. destination_port_range flt' = Some r \<longrightarrow> PortRange_wf r)"
  using assms
proof (induction I t flt flds rule: parse_fields.induct)
  case (3 I target flt s flds)
  then show ?case
    by (auto simp: result_iffs parse_target_def Target_from_str_def split: if_splits)
qed (auto simp: result_iffs dest: PortRange_from_str_wf)

section \<open>The parser and the printer under the laws of the prefix type\<close>

context ipnet_api
begin

lemma Target_to_string_text: "target_text (Target_to_string I t)"
  using to_string_chars to_string_nonempty by (cases t) (auto simp: target_text_def)

lemma Target_roundtrip: "Target_wf t \<Longrightarrow> parse_target I (Target_to_string I t) = Inr t"
proof (cases t)
  case (Prefix n)
  assume "Target_wf t"
  moreover have "CHR ''@'' \<notin> set (net_to_string I n)"
    using to_string_chars net_char_facts(1) by blast
  then have "net_to_string I n \<noteq> ''@host''" "net_to_string I n \<noteq> ''@peers''"
    by auto
  ultimately show ?thesis
    using Prefix by (simp add: parse_target_def Target_from_str_def from_to_string)
qed (simp_all add: parse_target_def Target_from_str_def)

lemma Rule_roundtrip:
  assumes wf: "Rule_wf r"
  shows "Rule_parse I (Rule_to_string I r) = Inr r"
proof (cases r)
  case (Stateless t)
  let ?s = "Target_to_string I t"
  have "g_rule ?s = Some (TargetBody ?s)"
    using g_target_text[OF Target_to_string_text, of "[]" t]
      g_stateful_target_text[OF Target_to_string_text] by (simp add: g_rule_def)
  then show ?thesis
    using Stateless wf Target_roundtrip by (simp add: Rule_parse_def)
next
  case (Stateful d t f)
  let ?s = "Target_to_string I t"
  have dir: "Direction_from_str (Direction_to_string d) = Inr d"
    by (cases d) (simp_all add: Direction_from_str_def)
  have "g_rule (Rule_to_string I r) =
      Some (StatefulBody (FDirection (Direction_to_string d) # protocol_fields f
        @ FTarget ?s # port_fields f))"
    using g_stateful_text[OF Target_to_string_text, of d f t] Stateful by (simp add: g_rule_def)
  moreover have "parse_fields I (Prefix (net_default I)) Filter_default
      (protocol_fields f @ FTarget ?s # port_fields f) = Inr (t, f)"
    using Stateful wf Target_roundtrip by (intro parse_fields_text) simp_all
  ultimately show ?thesis
    using Stateful wf dir
    by (auto simp: Rule_parse_def parse_stateful_def Filter_wf_def split: option.splits)
qed

lemma Rule_parse_wf:
  assumes "Rule_parse I s = Inr r"
  shows "Rule_wf r"
proof -
  from assms obtain body where body: "g_rule s = Some body"
    and r: "(case body of TargetBody t \<Rightarrow> and_then (parse_target I t) (\<lambda>t. Inr (Stateless t))
      | StatefulBody flds \<Rightarrow> parse_stateful I flds) = Inr r"
    by (auto simp: Rule_parse_def result_iffs)
  show ?thesis
  proof (cases body)
    case (TargetBody t)
    with r show ?thesis
      by (auto simp: result_iffs parse_target_def Target_from_str_def
          split: if_splits dest: from_str_valid)
  next
    case (StatefulBody flds)
    with r obtain f fs d t flt where "flds = f # fs"
      and p: "parse_fields I (Prefix (net_default I)) Filter_default fs = Inr (t, flt)"
      and ports: "destination_port_range flt = None \<or> protocol flt = Some Tcp \<or> protocol flt = Some Udp"
      and "r = Stateful d t flt"
      by (auto simp: parse_stateful_def result_iffs split: list.splits)
    moreover have "Target_wf t \<and> (\<forall>q. destination_port_range flt = Some q \<longrightarrow> PortRange_wf q)"
      by (rule parse_fields_wf[OF p])
        (simp_all add: from_str_valid default_valid Filter_default_def)
    ultimately show ?thesis
      by (auto simp: Filter_wf_def split: option.splits)
  qed
qed

lemma Rule_normalized_wf [simp]: "Rule_wf (Rule_normalized I r) = Rule_wf r"
proof -
  have "Target_wf (Target_normalized I t) = Target_wf t" for t
    by (cases t) simp_all
  then show ?thesis by (cases r) simp_all
qed

lemma Rule_normalized_idem [simp]: "Rule_normalized I (Rule_normalized I r) = Rule_normalized I r"
proof -
  have "Target_normalized I (Target_normalized I t) = Target_normalized I t" for t
    by (cases t) (simp_all add: trunc_idem)
  then show ?thesis by (cases r) simp_all
qed

lemma Rule_to_string_inj: "inj_on (Rule_to_string I) {r. Rule_wf r}"
  by (rule inj_onI) (metis Rule_roundtrip mem_Collect_eq sum.inject(2))

end

section \<open>Lemmas: panic freedom and the width of a range\<close>

lemma Rule_parse_no_panic: "Rule_parse I s \<noteq> Inl RulePanic"
proof
  assume panic: "Rule_parse I s = Inl RulePanic"
  show False
  proof (cases "g_rule s")
    case None
    with panic show False by (simp add: Rule_parse_def ok_or_def)
  next
    case (Some body)
    show False
    proof (cases body)
      case (TargetBody t)
      with panic Some show False
        by (auto simp: Rule_parse_def ok_or_def parse_target_def split: option.splits)
    next
      case (StatefulBody flds)
      then obtain r where "g_stateful s = Some (flds, r)"
        using Some by (auto simp: g_rule_def split: option.splits prod.splits if_splits bind_splits)
      then obtain d fs where f: "flds = FDirection d # fs" "\<forall>f \<in> set fs. inner_field f"
        using g_stateful_shape by blast
      have "parse_fields I (Prefix (net_default I)) Filter_default fs \<noteq> Inl RulePanic"
        by (rule parse_fields_no_panic[OF f(2)])
      moreover have "Rule_parse I s = parse_stateful I flds"
        using Some StatefulBody by (simp add: Rule_parse_def ok_or_def)
      ultimately show False
        using panic f(1)
        by (auto simp: parse_stateful_def Direction_from_str_def and_then_def ensure_def
            split: sum.splits if_splits)
    qed
  qed
qed

lemma PortRange_count:
  assumes "pr_start r \<le> pr_end r"
  shows "card {p. PortRange_contains r p} = unat (PortRange_width r) + 1"
proof -
  let ?a = "unat (pr_start r)" and ?b = "unat (pr_end r)"
  have b: "?b < 2 ^ LENGTH(16)" by (rule unsigned_less)
  have small: "k \<le> ?b \<Longrightarrow> unat (of_nat k :: u16) = k" for k
    using b by (simp add: unat_of_nat)
  have "{p. PortRange_contains r p} = of_nat ` {?a..?b}"
  proof (intro set_eqI iffI)
    fix p assume "p \<in> {p. PortRange_contains r p}"
    then show "p \<in> of_nat ` {?a..?b}"
      by (intro image_eqI[of _ _ "unat p"]) (simp_all add: PortRange_contains_def word_le_nat_alt)
  next
    fix p :: u16 assume "p \<in> of_nat ` {?a..?b}"
    then obtain n where n: "p = of_nat n" "?a \<le> n" "n \<le> ?b" by auto
    then have "unat p = n" using small by metis
    with n show "p \<in> {p. PortRange_contains r p}"
      by (simp add: PortRange_contains_def word_le_nat_alt)
  qed
  moreover have "inj_on (of_nat :: nat \<Rightarrow> u16) {?a..?b}"
  proof (rule inj_onI)
    fix m n assume "m \<in> {?a..?b}" "n \<in> {?a..?b}" "(of_nat m :: u16) = of_nat n"
    then show "m = n" using small by (metis atLeastAtMost_iff)
  qed
  moreover have "unat (PortRange_width r) = ?b - ?a"
    using assms by (simp add: PortRange_width_def unat_sub)
  moreover have "?a \<le> ?b" using assms by (simp add: word_le_nat_alt)
  ultimately show ?thesis by (simp add: card_image)
qed

section \<open>Properties\<close>

text \<open>
  C34: printing a well-formed rule in its control-protocol form and parsing the text again gives
  the same rule.
\<close>

theorem rule_text_roundtrip:
  assumes "ipnet_api I" and "Rule_wf r"
  shows "Rule_parse I (Rule_to_string I r) = Inr r"
  using assms(2) by (rule ipnet_api.Rule_roundtrip[OF assms(1)])

theorem rule_text_roundtrip_witness:
  "Rule_parse ref_ipnet ''out proto tcp 10.0.0.0/8 port 443:444'' =
     Inr (Stateful Out (Prefix (Ipv4Net 167772160 8))
       \<lparr>protocol = Some Tcp, destination_port_range = Some \<lparr>pr_start = 443, pr_end = 444\<rparr>\<rparr>)"
  (is "_ = Inr ?r")
proof -
  have "Rule_to_string ref_ipnet ?r = ''out proto tcp 10.0.0.0/8 port 443:444''"
    by code_simp
  moreover have "Rule_parse ref_ipnet (Rule_to_string ref_ipnet ?r) = Inr ?r"
    by (rule rule_text_roundtrip[OF ref_net.ipnet_api_axioms])
      (simp add: Filter_wf_def PortRange_wf_def net_valid_def)
  ultimately show ?thesis by (simp only:)
qed

text \<open>
  C35: the parser answers every input with an error or a well-formed rule. It never reaches the
  panicking branches, and a rule it accepts survives printing and parsing again.
\<close>

theorem rule_parse_sound:
  assumes "ipnet_api I"
  shows "Rule_parse I s \<noteq> Inl RulePanic \<and>
    (\<forall>r. Rule_parse I s = Inr r \<longrightarrow> Rule_wf r \<and> Rule_parse I (Rule_to_string I r) = Inr r)"
  using Rule_parse_no_panic ipnet_api.Rule_parse_wf[OF assms] ipnet_api.Rule_roundtrip[OF assms]
  by blast

theorem rule_parse_sound_witness:
  "Rule_parse ref_ipnet ''in @peers'' = Inr (Stateful In Peers Filter_default) \<and>
   Rule_wf (Stateful In Peers Filter_default)"
proof -
  have "Rule_parse ref_ipnet ''in @peers'' = Inr (Stateful In Peers Filter_default)"
    by code_simp
  then show ?thesis
    using rule_parse_sound[OF ref_net.ipnet_api_axioms, of "''in @peers''"] by simp
qed

text \<open>
  The normalized text of a rule is canonical. Two accepted rules have the same normalized
  text exactly when they have the same normal form, and the normalized text parses to a rule that
  is its own normal form.
\<close>

theorem rule_text_canonical:
  assumes "ipnet_api I" and "Rule_parse I s = Inr r" and "Rule_parse I s' = Inr r'"
  shows "(Rule_to_string I (Rule_normalized I r) = Rule_to_string I (Rule_normalized I r') \<longleftrightarrow>
      Rule_normalized I r = Rule_normalized I r') \<and>
    Rule_parse I (Rule_to_string I (Rule_normalized I r)) = Inr (Rule_normalized I r) \<and>
    Rule_normalized I (Rule_normalized I r) = Rule_normalized I r"
proof (intro conjI)
  note api = ipnet_api.Rule_parse_wf[OF assms(1)] ipnet_api.Rule_normalized_wf[OF assms(1)]
  have wf: "Rule_wf (Rule_normalized I r)" "Rule_wf (Rule_normalized I r')"
    using assms api by simp_all
  then show "Rule_to_string I (Rule_normalized I r) = Rule_to_string I (Rule_normalized I r') \<longleftrightarrow>
      Rule_normalized I r = Rule_normalized I r'"
    using ipnet_api.Rule_to_string_inj[OF assms(1)] by (simp add: inj_on_eq_iff)
  show "Rule_parse I (Rule_to_string I (Rule_normalized I r)) = Inr (Rule_normalized I r)"
    using wf(1) by (rule ipnet_api.Rule_roundtrip[OF assms(1)])
  show "Rule_normalized I (Rule_normalized I r) = Rule_normalized I r"
    by (rule ipnet_api.Rule_normalized_idem[OF assms(1)])
qed

theorem rule_text_canonical_witness:
  "Rule_parse ref_ipnet ''10.1.2.3/8'' = Inr (Stateless (Prefix (Ipv4Net 167838211 8))) \<and>
   Rule_parse ref_ipnet ''10.0.0.0/8'' = Inr (Stateless (Prefix (Ipv4Net 167772160 8))) \<and>
   Rule_normalized ref_ipnet (Stateless (Prefix (Ipv4Net 167838211 8))) =
     Rule_normalized ref_ipnet (Stateless (Prefix (Ipv4Net 167772160 8)))"
proof -
  have p: "Rule_parse ref_ipnet ''10.1.2.3/8'' = Inr (Stateless (Prefix (Ipv4Net 167838211 8)))"
    by code_simp
  have q: "Rule_parse ref_ipnet ''10.0.0.0/8'' = Inr (Stateless (Prefix (Ipv4Net 167772160 8)))"
    by code_simp
  have "Rule_to_string ref_ipnet (Rule_normalized ref_ipnet (Stateless (Prefix (Ipv4Net 167838211 8)))) =
      Rule_to_string ref_ipnet (Rule_normalized ref_ipnet (Stateless (Prefix (Ipv4Net 167772160 8))))"
    by code_simp
  with p q show ?thesis
    using rule_text_canonical[OF ref_net.ipnet_api_axioms p q] by simp
qed

text \<open>
  An accepted port range contains exactly the ports between its bounds, one more than its
  width, so the width subtraction never wraps; port zero is never in it, and its text parses back.
\<close>

theorem port_range_exact:
  assumes "PortRange_from_str s = Inr r"
  shows "card {p. PortRange_contains r p} = unat (PortRange_width r) + 1 \<and>
    \<not> PortRange_contains r 0 \<and> PortRange_from_str (PortRange_to_string r) = Inr r"
  using PortRange_from_str_wf[OF assms] PortRange_count[of r] PortRange_roundtrip[of r]
  by (auto simp: PortRange_wf_def PortRange_contains_def)

theorem port_range_exact_witness:
  "PortRange_from_str ''80:89'' = Inr \<lparr>pr_start = 80, pr_end = 89\<rparr> \<and>
   card {p. PortRange_contains \<lparr>pr_start = 80, pr_end = 89\<rparr> p} = 10"
proof -
  have s: "PortRange_from_str ''80:89'' = Inr \<lparr>pr_start = 80, pr_end = 89\<rparr>" by code_simp
  moreover have "unat (PortRange_width \<lparr>pr_start = 80, pr_end = 89\<rparr>) = 9" by code_simp
  ultimately show ?thesis using port_range_exact[OF s] by simp
qed

end
