(* ===== verification/Wire.thy ===== *)
theory Wire
  imports Prelude
begin

text \<open>
  What the code sees of a frame. Frames are decoded by the \<open>smoltcp\<close> crate, which is not part of
  the repository: a packet is therefore modelled by the values its accessors return on the
  received buffer, and nothing is assumed about how they are computed. The definitions read these
  fields exactly where the source calls the accessors, and the theorems hold for every value of
  them. A header behind \<open>new_checked\<close> is an \<open>option\<close>, \<open>None\<close> standing for the length error.
\<close>

datatype IpProtocol = IpIcmp | IpTcp | IpUdp | IpOther u8

datatype EthernetProtocol = EtherIpv4 | EtherArp | EtherOther u16

datatype Icmpv4Message = EchoReply | EchoRequest | IcmpOther u8

datatype ArpOperation = ArpRequest | ArpReply | ArpOther u16

text \<open>\<open>TcpPacket\<close>: ports and the control bits the flow table reads.\<close>

record TcpHeader =
  tcp_src_port :: u16
  tcp_dst_port :: u16
  tcp_syn :: bool
  tcp_ack :: bool
  tcp_fin :: bool
  tcp_rst :: bool

text \<open>\<open>Icmpv4Packet\<close>, with the result of \<open>verify_checksum\<close>.\<close>

record IcmpHeader =
  icmp_checksum_ok :: bool
  icmp_msg_type :: Icmpv4Message
  icmp_msg_code :: u8
  icmp_echo_ident :: u16

text \<open>
  \<open>UdpPacket\<close> over the IPv4 payload: the code reads its ports both behind \<open>new_checked\<close>
  (\<open>udp_checked\<close>) and, once four bytes are present, behind \<open>new_unchecked\<close>. \<open>udp_repr_ok\<close> is
  the result of \<open>UdpRepr::parse\<close> with the packet's own addresses, which checks the checksum.
\<close>

record UdpHeader =
  udp_checked :: bool
  udp_src_port :: u16
  udp_dst_port :: u16
  udp_len :: u16
  udp_checksum_ok :: bool
  udp_repr_ok :: bool
  udp_payload :: bytes

record Ipv4Packet =
  src_addr :: ipv4addr
  dst_addr :: ipv4addr
  next_header :: IpProtocol
  header_len :: u8
  more_frags :: bool
  frag_offset :: u16
  ip_checksum_ok :: bool
  payload_len :: nat
  tcp_header :: "TcpHeader option"
  udp_header :: UdpHeader
  icmp_header :: "IcmpHeader option"

text \<open>\<open>ArpRepr\<close> is non-exhaustive; the code distinguishes its Ethernet/IPv4 form only.\<close>

datatype ArpRepr =
    EthernetIpv4 (arp_operation: ArpOperation) (source_hardware_addr: mac)
      (source_protocol_addr: ipv4addr)
  | ArpUnsupported

text \<open>
  \<open>frame_arp\<close> is \<open>ArpPacket::new_checked\<close> on the payload, holding the result of
  \<open>ArpRepr::parse\<close>; \<open>frame_ipv4_valid\<close> is whether \<open>Ipv4Repr::parse\<close> accepts the payload.
\<close>

record EthernetFrame =
  frame_bytes :: bytes
  frame_src :: mac
  frame_dst :: mac
  frame_ethertype :: EthernetProtocol
  frame_arp :: "ArpRepr option option"
  frame_ipv4_valid :: bool
  frame_ipv4 :: Ipv4Packet

definition is_fragment :: "Ipv4Packet \<Rightarrow> bool" where
  "is_fragment p \<longleftrightarrow> more_frags p \<or> frag_offset p \<noteq> 0"

text \<open>The address predicates of the standard library.\<close>

definition is_unspecified :: "ipv4addr \<Rightarrow> bool" where
  "is_unspecified a \<longleftrightarrow> a = 0"

definition is_broadcast :: "ipv4addr \<Rightarrow> bool" where
  "is_broadcast a \<longleftrightarrow> a = - 1"

end
