(* ===== verification/Rules.thy ===== *)
theory Rules
  imports Rule Wire
begin

text \<open>
  The compiled packet policy (\<open>lib/proxy/rules.rs\<close>): building the two prefix maps from the allow
  and block lists, and selecting the action for a packet. The prefix map is the \<open>prefix_trie\<close>
  crate, whose operations are fields of a parameter record; the laws the code relies on are the
  locale \<open>policy_api\<close>. The iteration order of the standard \<open>HashMap\<close> is the field \<open>hash_order\<close>,
  an arbitrary permutation, which also covers the freedom of \<open>sort_unstable_by_key\<close>: a stable
  sort after an arbitrary permutation yields every sorted arrangement.
\<close>

section \<open>Types\<close>

datatype Action = Block | Allow

datatype PolicyDecision = DecisionBlock | AllowStateless | AllowStateful

datatype Mode = LegacyMode | StatefulMode

type_synonym FilterMap = "(Filter, Action) hashmap"
type_synonym FilterRules = "(Filter \<times> Action) list"

record ('p, 'm) policy_ext = ipnet_ops +
  pm_new :: 'p
  pm_entry_alter :: "Ipv4Net \<Rightarrow> (FilterMap \<Rightarrow> FilterMap) \<Rightarrow> 'p \<Rightarrow> 'p"
  pm_into_iter :: "'p \<Rightarrow> (Ipv4Net \<times> FilterMap) list"
  pm_collect :: "(Ipv4Net \<times> FilterRules) list \<Rightarrow> 'm"
  pm_cover :: "'m \<Rightarrow> Ipv4Net \<Rightarrow> (Ipv4Net \<times> FilterRules) list"
  pm_values :: "'m \<Rightarrow> FilterRules list"
  hash_order :: "FilterMap \<Rightarrow> FilterMap"

record 'm Rules =
  rules_mode :: Mode
  inbound :: 'm
  outbound :: 'm

section \<open>Priorities and filter matching\<close>

type_synonym priority = "bool \<times> u8 \<times> bool \<times> u16 Reverse \<times> bool"

definition rule_priority :: "u8 \<Rightarrow> Filter \<Rightarrow> Action \<Rightarrow> priority" where
  "rule_priority prefix_len flt action =
     (destination_port_range flt \<noteq> None,
      prefix_len,
      protocol flt \<noteq> None,
      Reverse (case destination_port_range flt of None \<Rightarrow> - 1 | Some prange \<Rightarrow> PortRange_width prange),
      action = Block)"

fun transport_protocol :: "IpProtocol \<Rightarrow> Protocol option" where
  "transport_protocol IpTcp = Some Tcp"
| "transport_protocol IpUdp = Some Udp"
| "transport_protocol IpIcmp = Some Icmp"
| "transport_protocol (IpOther _) = None"

definition filter_matches :: "Protocol option \<Rightarrow> u16 option \<Rightarrow> Filter \<times> Action \<Rightarrow> bool" where
  "filter_matches proto destination_port = (\<lambda>(flt, action).
     if protocol flt \<noteq> None \<and> protocol flt \<noteq> proto then False
     else (case destination_port_range flt of
             None \<Rightarrow> True
           | Some prange \<Rightarrow>
               (case destination_port of
                  Some port \<Rightarrow> PortRange_contains prange port
                | None \<Rightarrow> action = Block \<and> (proto = Some Tcp \<or> proto = Some Udp))))"

definition filter_action ::
  "FilterRules \<Rightarrow> IpProtocol \<Rightarrow> u16 option \<Rightarrow> (Filter \<times> Action) option" where
  "filter_action filters proto destination_port =
     find (filter_matches (transport_protocol proto) destination_port) filters"

definition packet_ports :: "Ipv4Packet \<Rightarrow> (u16 \<times> u16) option" where
  "packet_ports pkt =
     (if more_frags pkt \<or> frag_offset pkt \<noteq> 0 then None
      else (case next_header pkt of
              IpTcp \<Rightarrow> map_option (\<lambda>tcp. (tcp_src_port tcp, tcp_dst_port tcp)) (tcp_header pkt)
            | IpUdp \<Rightarrow>
                (if udp_checked (udp_header pkt)
                 then Some (udp_src_port (udp_header pkt), udp_dst_port (udp_header pkt)) else None)
            | _ \<Rightarrow> None))"

section \<open>Compilation\<close>

definition insert_filter ::
  "('p, 'm, 'z) policy_ext_scheme \<Rightarrow> ipv4addr \<Rightarrow> ipv4addr list \<Rightarrow>
   Target \<Rightarrow> Filter \<Rightarrow> Action \<Rightarrow> 'p \<Rightarrow> 'p" where
  "insert_filter E host_address peer_addresses target flt action entries =
     (case target of
        Prefix prefix \<Rightarrow> pm_entry_alter E prefix (hm_insert flt action) entries
      | Host \<Rightarrow> pm_entry_alter E (net_from_addr E host_address) (hm_insert flt action) entries
      | Peers \<Rightarrow>
          fold (\<lambda>address. pm_entry_alter E (net_from_addr E address) (hm_insert flt action))
            peer_addresses entries)"

text \<open>One iteration of the loop over the rules of one list.\<close>

definition add_rule ::
  "('p, 'm, 'z) policy_ext_scheme \<Rightarrow> ipv4addr \<Rightarrow> ipv4addr list \<Rightarrow> Mode \<Rightarrow> Action \<Rightarrow>
   Rule \<Rightarrow> 'p \<times> 'p \<Rightarrow> 'p \<times> 'p" where
  "add_rule E host peers mode action rule = (\<lambda>(inbound, outbound).
     let (inbound, direction, target, flt) =
       (case rule of
          Stateless target \<Rightarrow>
            (if mode = StatefulMode
             then insert_filter E host peers target Filter_default action inbound else inbound,
             Out, target, Filter_default)
        | Stateful direction target flt \<Rightarrow> (inbound, direction, target, flt))
     in (case direction of
           In \<Rightarrow> (insert_filter E host peers target flt action inbound, outbound)
         | Out \<Rightarrow> (inbound, insert_filter E host peers target flt action outbound)))"

definition compile_rules :: "('p, 'm, 'z) policy_ext_scheme \<Rightarrow> 'p \<Rightarrow> 'm" where
  "compile_rules E entries =
     pm_collect E (map (\<lambda>(prefix, filters).
       (prefix,
        sort_key (\<lambda>(flt, action). Reverse (rule_priority (net_prefix_len prefix) flt action))
          (hash_order E filters)))
       (pm_into_iter E entries))"

fun is_stateful_rule :: "Rule \<Rightarrow> bool" where
  "is_stateful_rule (Stateless _) = False"
| "is_stateful_rule (Stateful _ _ _) = True"

definition policy_mode :: "Rule list \<Rightarrow> Rule list \<Rightarrow> Mode" where
  "policy_mode allow block =
     (if list_ex is_stateful_rule (allow @ block) then StatefulMode else LegacyMode)"

definition Rules_new ::
  "('p, 'm, 'z) policy_ext_scheme \<Rightarrow> ipv4addr \<Rightarrow> ipv4addr list \<Rightarrow> Rule list \<Rightarrow> Rule list \<Rightarrow> 'm Rules"
where
  "Rules_new E host_address peer_addresses allow block =
     (let mode = policy_mode allow block;
          (inbound, outbound) =
            fold (\<lambda>(rules, action). fold (add_rule E host_address peer_addresses mode action) rules)
              [(allow, Allow), (block, Block)] (pm_new E, pm_new E)
      in \<lparr>rules_mode = mode, inbound = compile_rules E inbound, outbound = compile_rules E outbound\<rparr>)"

section \<open>Queries\<close>

definition select ::
  "('p, 'm, 'z) policy_ext_scheme \<Rightarrow> 'm Rules \<Rightarrow> ipv4addr \<Rightarrow> Direction \<Rightarrow> IpProtocol \<Rightarrow> u16 option \<Rightarrow>
   Action option" where
  "select E rules address direction proto destination_port =
     (let entries = (case direction of In \<Rightarrow> inbound rules | Out \<Rightarrow> outbound rules)
      in map_option snd (max_by_key fst
           (List.map_filter (\<lambda>(prefix, filters).
              map_option (\<lambda>(flt, action). (rule_priority (net_prefix_len prefix) flt action, action))
                (filter_action filters proto destination_port))
             (pm_cover E entries (net_from_addr E address)))))"

definition policy_decision ::
  "('p, 'm, 'z) policy_ext_scheme \<Rightarrow> 'm Rules \<Rightarrow> Ipv4Packet \<Rightarrow> Direction \<Rightarrow> PolicyDecision option" where
  "policy_decision E rules pkt direction =
     (let address = (case direction of In \<Rightarrow> src_addr pkt | Out \<Rightarrow> dst_addr pkt)
      in map_option (\<lambda>action.
           case (action, rules_mode rules) of
             (Block, _) \<Rightarrow> DecisionBlock
           | (Allow, LegacyMode) \<Rightarrow> AllowStateless
           | (Allow, StatefulMode) \<Rightarrow> AllowStateful)
         (select E rules address direction (next_header pkt) (map_option snd (packet_ports pkt))))"

definition is_stateful ::
  "('p, 'm, 'z) policy_ext_scheme \<Rightarrow> 'm Rules \<Rightarrow> Ipv4Packet \<Rightarrow> Direction \<Rightarrow> bool" where
  "is_stateful E rules pkt direction =
     (let address = (case direction of In \<Rightarrow> dst_addr pkt | Out \<Rightarrow> src_addr pkt)
      in rules_mode rules = StatefulMode \<and>
         select E rules address direction (next_header pkt) (map_option fst (packet_ports pkt)) \<noteq> None)"

definition Rules_len :: "('p, 'm, 'z) policy_ext_scheme \<Rightarrow> 'm Rules \<Rightarrow> nat" where
  "Rules_len E rules =
     sum_list (map length (pm_values E (inbound rules) @ pm_values E (outbound rules)))"

definition has_stateful :: "'m Rules \<Rightarrow> bool" where
  "has_stateful rules = (rules_mode rules = StatefulMode)"

section \<open>Reference semantics of a policy\<close>

text \<open>
  The rules of a direction as a flat list of (prefix, filter, action) entries: what each rule
  contributes, in the order the loops visit them.
\<close>

fun target_prefixes ::
  "'z ipnet_ops_scheme \<Rightarrow> ipv4addr \<Rightarrow> ipv4addr list \<Rightarrow> Target \<Rightarrow> Ipv4Net list" where
  "target_prefixes E host peers (Prefix p) = [p]"
| "target_prefixes E host peers Host = [net_from_addr E host]"
| "target_prefixes E host peers Peers = map (net_from_addr E) peers"

fun rule_filter :: "Mode \<Rightarrow> Direction \<Rightarrow> Rule \<Rightarrow> (Target \<times> Filter) option" where
  "rule_filter mode dir (Stateless t) =
     (if dir = Out \<or> mode = StatefulMode then Some (t, Filter_default) else None)"
| "rule_filter mode dir (Stateful d t f) = (if d = dir then Some (t, f) else None)"

type_synonym entry = "Ipv4Net \<times> Filter \<times> Action"

definition rule_entries ::
  "'z ipnet_ops_scheme \<Rightarrow> ipv4addr \<Rightarrow> ipv4addr list \<Rightarrow> Mode \<Rightarrow> Direction \<Rightarrow> Action \<Rightarrow> Rule \<Rightarrow> entry list"
where
  "rule_entries E host peers mode dir action rule =
     (case rule_filter mode dir rule of
        None \<Rightarrow> []
      | Some (t, f) \<Rightarrow> map (\<lambda>p. (p, f, action)) (target_prefixes E host peers t))"

definition policy_entries ::
  "'z ipnet_ops_scheme \<Rightarrow> ipv4addr \<Rightarrow> ipv4addr list \<Rightarrow> Rule list \<Rightarrow> Rule list \<Rightarrow> Direction \<Rightarrow> entry list"
where
  "policy_entries E host peers allow block dir =
     (let mode = policy_mode allow block
      in concat (map (rule_entries E host peers mode dir Allow) allow) @
         concat (map (rule_entries E host peers mode dir Block) block))"

definition entry_matches ::
  "'z ipnet_ops_scheme \<Rightarrow> ipv4addr \<Rightarrow> IpProtocol \<Rightarrow> u16 option \<Rightarrow> entry \<Rightarrow> bool" where
  "entry_matches E address proto port = (\<lambda>(p, f, a).
     net_contains E p (net_from_addr E address) \<and>
     (case protocol f of
        None \<Rightarrow> True
      | Some Tcp \<Rightarrow> proto = IpTcp
      | Some Udp \<Rightarrow> proto = IpUdp
      | Some Icmp \<Rightarrow> proto = IpIcmp) \<and>
     (case destination_port_range f of
        None \<Rightarrow> True
      | Some r \<Rightarrow>
          (case port of
             Some n \<Rightarrow> pr_start r \<le> n \<and> n \<le> pr_end r
           | None \<Rightarrow> a = Block \<and> (proto = IpTcp \<or> proto = IpUdp))))"

text \<open>A port, then the longest prefix, then a protocol, then the narrowest port range; blocking wins ties.\<close>

definition entry_priority :: "entry \<Rightarrow> priority" where
  "entry_priority = (\<lambda>(p, f, a).
     (destination_port_range f \<noteq> None, net_prefix_len p, protocol f \<noteq> None,
      Reverse (case destination_port_range f of None \<Rightarrow> - 1 | Some r \<Rightarrow> pr_end r - pr_start r), a = Block))"

definition priority_action :: "priority \<Rightarrow> Action" where
  "priority_action p = (if snd (snd (snd (snd p))) then Block else Allow)"

definition entry_key :: "'z ipnet_ops_scheme \<Rightarrow> entry \<Rightarrow> Ipv4Net \<times> Filter" where
  "entry_key E = (\<lambda>(p, f, a). (net_trunc E p, f))"

text \<open>The specification: the action of the matching entry of highest priority.\<close>

definition select_spec ::
  "'z ipnet_ops_scheme \<Rightarrow> entry list \<Rightarrow> ipv4addr \<Rightarrow> IpProtocol \<Rightarrow> u16 option \<Rightarrow> Action option" where
  "select_spec E entries address proto port =
     (let ps = map entry_priority (List.filter (entry_matches E address proto port) entries)
      in if ps = [] then None else Some (priority_action (Max (set ps))))"

text \<open>The prefixes that a list of rules names, whatever their direction and filter.\<close>

fun rule_target :: "Rule \<Rightarrow> Target" where
  "rule_target (Stateless t) = t"
| "rule_target (Stateful _ t _) = t"

definition rules_prefixes ::
  "'z ipnet_ops_scheme \<Rightarrow> ipv4addr \<Rightarrow> ipv4addr list \<Rightarrow> Rule list \<Rightarrow> Ipv4Net list" where
  "rules_prefixes E host peers rules = concat (map (target_prefixes E host peers \<circ> rule_target) rules)"

section \<open>The laws of the prefix map\<close>

definition pm_lookup :: "('p, 'm, 'z) policy_ext_scheme \<Rightarrow> 'p \<Rightarrow> Ipv4Net \<Rightarrow> FilterMap option" where
  "pm_lookup E p k = map_of (map (\<lambda>(q, v). (net_trunc E q, v)) (pm_into_iter E p)) (net_trunc E k)"

locale policy_api = ipnet_api E
  for E :: "('p, 'm, 'z) policy_ext_scheme" +
  fixes pm_inv :: "'p \<Rightarrow> bool"
  assumes inv_new: "pm_inv (pm_new E)"
    and inv_alter: "pm_inv p \<Longrightarrow> pm_inv (pm_entry_alter E k f p)"
    and iter_new: "pm_into_iter E (pm_new E) = []"
    and iter_distinct: "pm_inv p \<Longrightarrow> distinct (map (\<lambda>(q, _). net_trunc E q) (pm_into_iter E p))"
    and lookup_alter: "pm_inv p \<Longrightarrow>
      pm_lookup E (pm_entry_alter E k f p) k' =
        (if net_trunc E k' = net_trunc E k
         then Some (f (case pm_lookup E p k of None \<Rightarrow> [] | Some v \<Rightarrow> v)) else pm_lookup E p k')"
    and cover_collect: "distinct (map (\<lambda>(q, _). net_trunc E q) es) \<Longrightarrow>
      set (pm_cover E (pm_collect E es) q) = {(p, v) \<in> set es. net_contains E p q}"
    and values_collect: "distinct (map (\<lambda>(q, _). net_trunc E q) es) \<Longrightarrow>
      mset (pm_values E (pm_collect E es)) = mset (map snd es)"
    and hash_order_perm: "mset (hash_order E m) = mset m"

section \<open>Lemmas: priorities\<close>

lemma priority_action_priority [simp]: "priority_action (rule_priority l f a) = a"
  by (cases a) (simp_all add: priority_action_def rule_priority_def)

lemma entry_priority_simp [simp]: "entry_priority (p, f, a) = rule_priority (net_prefix_len p) f a"
  by (auto simp: entry_priority_def rule_priority_def PortRange_width_def split: option.splits)

lemma entry_matches_filter:
  "entry_matches E address proto port (p, f, a) \<longleftrightarrow>
     net_contains E p (net_from_addr E address) \<and> filter_matches (transport_protocol proto) port (f, a)"
  by (cases proto) (auto simp: entry_matches_def filter_matches_def PortRange_contains_def split: option.splits Protocol.splits)

lemma priority_block_max: "rule_priority l f a \<le> rule_priority l f Block"
  by (cases a) (simp_all add: rule_priority_def)

lemma filter_matches_block: "filter_matches pr po (f, a) \<Longrightarrow> filter_matches pr po (f, Block)"
  by (auto simp: filter_matches_def split: if_splits option.splits)

text \<open>The first match in a list sorted by descending priority is a match of highest priority.\<close>

lemma find_sorted_first:
  fixes g :: "'a \<Rightarrow> 'k::linorder"
  assumes "sorted (map (\<lambda>x. Reverse (g x)) xs)" and "find P xs = Some x"
  shows "x \<in> set xs \<and> P x \<and> (\<forall>y \<in> set xs. P y \<longrightarrow> g y \<le> g x)"
  using assms by (induction xs) (auto split: if_splits)

lemma Max_dominated:
  fixes A B :: "'a::linorder set"
  assumes "finite B" "A \<subseteq> B" "A \<noteq> {}" "\<And>b. b \<in> B \<Longrightarrow> \<exists>a \<in> A. b \<le> a"
  shows "Max A = Max B"
proof (rule antisym)
  show "Max A \<le> Max B" using assms by (intro Max_mono)
  have "Max B \<in> B" using assms by (intro Max_in) auto
  then obtain a where "a \<in> A" "Max B \<le> a" using assms(4) by blast
  moreover have "finite A" using assms(1,2) finite_subset by blast
  ultimately show "Max B \<le> Max A" using Max_ge order_trans by blast
qed

lemma policy_decision_iff:
  "policy_decision E R pkt dir = Some AllowStateless \<longleftrightarrow> rules_mode R = LegacyMode \<and>
     select E R (case dir of In \<Rightarrow> src_addr pkt | Out \<Rightarrow> dst_addr pkt) dir (next_header pkt)
       (map_option snd (packet_ports pkt)) = Some Allow"
  "policy_decision E R pkt dir = Some AllowStateful \<longleftrightarrow> rules_mode R = StatefulMode \<and>
     select E R (case dir of In \<Rightarrow> src_addr pkt | Out \<Rightarrow> dst_addr pkt) dir (next_header pkt)
       (map_option snd (packet_ports pkt)) = Some Allow"
  "policy_decision E R pkt dir = Some DecisionBlock \<longleftrightarrow>
     select E R (case dir of In \<Rightarrow> src_addr pkt | Out \<Rightarrow> dst_addr pkt) dir (next_header pkt)
       (map_option snd (packet_ports pkt)) = Some Block"
  "policy_decision E R pkt dir = None \<longleftrightarrow>
     select E R (case dir of In \<Rightarrow> src_addr pkt | Out \<Rightarrow> dst_addr pkt) dir (next_header pkt)
       (map_option snd (packet_ports pkt)) = None"
proof -
  define s where "s = select E R (case dir of In \<Rightarrow> src_addr pkt | Out \<Rightarrow> dst_addr pkt) dir (next_header pkt)
       (map_option snd (packet_ports pkt))"
  have d: "policy_decision E R pkt dir = map_option (\<lambda>action.
      case (action, rules_mode R) of (Block, _) \<Rightarrow> DecisionBlock | (Allow, LegacyMode) \<Rightarrow> AllowStateless
        | (Allow, StatefulMode) \<Rightarrow> AllowStateful) s"
    by (simp add: policy_decision_def s_def Let_def)
  have s: "s = None \<or> s = Some Allow \<or> s = Some Block"
  proof (cases s)
    case (Some a)
    then show ?thesis by (cases a) simp_all
  qed simp
  show "policy_decision E R pkt dir = Some AllowStateless \<longleftrightarrow> rules_mode R = LegacyMode \<and> select E R (case dir of In \<Rightarrow> src_addr pkt | Out \<Rightarrow> dst_addr pkt) dir
      (next_header pkt) (map_option snd (packet_ports pkt)) = Some Allow"
    and "policy_decision E R pkt dir = Some AllowStateful \<longleftrightarrow> rules_mode R = StatefulMode \<and> select E R (case dir of In \<Rightarrow> src_addr pkt | Out \<Rightarrow> dst_addr pkt) dir
      (next_header pkt) (map_option snd (packet_ports pkt)) = Some Allow"
    and "policy_decision E R pkt dir = Some DecisionBlock \<longleftrightarrow> select E R (case dir of In \<Rightarrow> src_addr pkt | Out \<Rightarrow> dst_addr pkt) dir
      (next_header pkt) (map_option snd (packet_ports pkt)) = Some Block"
    and "policy_decision E R pkt dir = None \<longleftrightarrow> select E R (case dir of In \<Rightarrow> src_addr pkt | Out \<Rightarrow> dst_addr pkt) dir
      (next_header pkt) (map_option snd (packet_ports pkt)) = None"
    unfolding s_def [symmetric] d using s by (auto split: Mode.splits)
qed

lemma finite_max_key:
  fixes g :: "'a \<Rightarrow> 'k::linorder"
  assumes "finite A" "a \<in> A"
  obtains m where "m \<in> A" "\<forall>x \<in> A. g x \<le> g m"
proof -
  have "Max (g ` A) \<in> g ` A" using assms by (intro Max_in) auto
  then obtain m where "m \<in> A" "g m = Max (g ` A)" by auto
  moreover have "\<forall>x \<in> A. g x \<le> Max (g ` A)" using assms(1) by simp
  ultimately show thesis using that by simp
qed

section \<open>Lemmas: compilation as a sequence of insertions\<close>

definition insert_entry :: "('p, 'm, 'z) policy_ext_scheme \<Rightarrow> entry \<Rightarrow> 'p \<Rightarrow> 'p" where
  "insert_entry E = (\<lambda>(q, f, a). pm_entry_alter E q (hm_insert f a))"

lemma insert_filter_entries:
  "insert_filter E host peers t f a p =
     fold (insert_entry E) (map (\<lambda>q. (q, f, a)) (target_prefixes E host peers t)) p"
  by (cases t) (simp_all add: insert_filter_def insert_entry_def fold_map comp_def)

lemma add_rule_entries:
  "add_rule E host peers mode a r (i, out) =
     (fold (insert_entry E) (rule_entries E host peers mode In a r) i,
      fold (insert_entry E) (rule_entries E host peers mode Out a r) out)"
  by (cases r)
    (auto simp: add_rule_def rule_entries_def insert_filter_entries split: Direction.splits)

lemma add_rules_entries:
  "fold (add_rule E host peers mode a) rs (i, out) =
     (fold (insert_entry E) (concat (map (rule_entries E host peers mode In a) rs)) i,
      fold (insert_entry E) (concat (map (rule_entries E host peers mode Out a) rs)) out)"
  by (induction rs arbitrary: i out) (simp_all add: add_rule_entries)

lemma Rules_new_entries:
  "Rules_new E host peers allow block =
     \<lparr>rules_mode = policy_mode allow block,
      inbound = compile_rules E (fold (insert_entry E) (policy_entries E host peers allow block In) (pm_new E)),
      outbound = compile_rules E (fold (insert_entry E) (policy_entries E host peers allow block Out) (pm_new E))\<rparr>"
  by (simp add: Rules_new_def add_rules_entries policy_entries_def Let_def)

lemma Rules_new_mode [simp]: "rules_mode (Rules_new E host peers allow block) = policy_mode allow block"
  by (simp add: Rules_new_entries)

lemma rule_entries_action: "(q, f, b) \<in> set (rule_entries E host peers mode d a r) \<Longrightarrow> b = a"
  by (auto simp: rule_entries_def split: option.splits)

lemma rule_entries_flip: "(q, f, a) \<in> set (rule_entries E host peers mode d a r) \<Longrightarrow>
    (q, f, b) \<in> set (rule_entries E host peers mode d b r)"
  by (cases "rule_filter mode d r") (auto simp: rule_entries_def image_iff)

lemma policy_entries_split:
  "\<exists>as bs. policy_entries E host peers allow block dir = as @ bs \<and>
     (\<forall>(q, f, a) \<in> set as. a = Allow) \<and> (\<forall>(q, f, a) \<in> set bs. a = Block)"
proof -
  let ?es = "\<lambda>a rs. concat (map (rule_entries E host peers (policy_mode allow block) dir a) rs)"
  have "\<forall>(q, f, b) \<in> set (?es a rs). b = a" for a rs
    by (auto dest: rule_entries_action)
  moreover have "policy_entries E host peers allow block dir = ?es Allow allow @ ?es Block block"
    by (simp add: policy_entries_def Let_def)
  ultimately show ?thesis by blast
qed

definition pending_get :: "('p, 'm, 'z) policy_ext_scheme \<Rightarrow> 'p \<Rightarrow> Ipv4Net \<Rightarrow> Filter \<Rightarrow> Action option" where
  "pending_get E p q f = Option.bind (pm_lookup E p q) (\<lambda>m. hm_get m f)"

section \<open>Selection computes the specification\<close>

context policy_api
begin

definition pending_ok :: "'p \<Rightarrow> bool" where
  "pending_ok p \<longleftrightarrow> pm_inv p \<and> (\<forall>k m. pm_lookup E p k = Some m \<longrightarrow> hm_wf m)"

lemma pending_ok_new: "pending_ok (pm_new E)"
  by (simp add: pending_ok_def inv_new pm_lookup_def iter_new)

lemma pending_ok_insert: "pending_ok p \<Longrightarrow> pending_ok (insert_entry E e p)"
  by (cases e) (auto simp: pending_ok_def insert_entry_def inv_alter lookup_alter split: if_splits option.splits)

lemma pending_ok_fold: "pending_ok p \<Longrightarrow> pending_ok (fold (insert_entry E) es p)"
  by (induction es arbitrary: p) (simp_all add: pending_ok_insert)

lemma pending_get_new [simp]: "pending_get E (pm_new E) q f = None"
  by (simp add: pending_get_def pm_lookup_def iter_new)

lemma lookup_trunc: "net_trunc E q = net_trunc E q' \<Longrightarrow> pm_lookup E p q = pm_lookup E p q'"
  by (simp add: pm_lookup_def)

lemma pending_get_insert:
  "pending_ok p \<Longrightarrow> pending_get E (insert_entry E (q, f, a) p) q' f' =
     (if net_trunc E q' = net_trunc E q \<and> f' = f then Some a else pending_get E p q' f')"
  using lookup_trunc[of q' q p]
  by (cases "pm_lookup E p q")
    (auto simp: pending_get_def insert_entry_def pending_ok_def lookup_alter)

lemma pending_get_fold_from:
  assumes "pending_ok p" "pending_get E (fold (insert_entry E) es p) q f = Some a"
  shows "pending_get E p q f = Some a \<or> (\<exists>q'. (q', f, a) \<in> set es \<and> net_trunc E q' = net_trunc E q)"
  using assms
proof (induction es arbitrary: p)
  case (Cons e es)
  obtain q0 f0 a0 where e: "e = (q0, f0, a0)" by (cases e)
  have "pending_get E (insert_entry E e p) q f = Some a \<or>
      (\<exists>q'. (q', f, a) \<in> set es \<and> net_trunc E q' = net_trunc E q)"
    using Cons by (simp add: pending_ok_insert)
  then show ?case
    using Cons.prems(1) e by (auto simp: pending_get_insert split: if_splits)
qed simp

lemma pending_get_fold_keeps:
  assumes "pending_ok p" "pending_get E p q f \<noteq> None"
  shows "pending_get E (fold (insert_entry E) es p) q f \<noteq> None"
  using assms
proof (induction es arbitrary: p)
  case (Cons e es)
  then show ?case
    by (cases e) (auto simp: pending_get_insert pending_ok_insert)
qed simp

lemma pending_get_fold_in:
  assumes "pending_ok p" "(q, f, a) \<in> set es"
  shows "pending_get E (fold (insert_entry E) es p) q f \<noteq> None"
  using assms
proof (induction es arbitrary: p)
  case (Cons e es)
  show ?case
  proof (cases "e = (q, f, a)")
    case True
    then have "pending_get E (insert_entry E e p) q f \<noteq> None"
      using Cons.prems by (simp add: pending_get_insert)
    then show ?thesis
      using Cons.prems(1) pending_get_fold_keeps[OF pending_ok_insert] by simp
  next
    case False
    with Cons show ?thesis by (simp add: pending_ok_insert)
  qed
qed simp

lemma pending_get_blocks:
  assumes "pending_ok p" "\<forall>(q, f, a) \<in> set bs. a = Block"
    and "pending_get E p q f = Some Block \<or> (q, f, Block) \<in> set bs"
  shows "pending_get E (fold (insert_entry E) bs p) q f = Some Block"
  using assms
proof (induction bs arbitrary: p)
  case (Cons e bs)
  obtain q0 f0 where e: "e = (q0, f0, Block)" using Cons.prems(2) by (cases e) auto
  have "pending_get E (insert_entry E e p) q f = Some Block \<or> (q, f, Block) \<in> set bs"
    using Cons.prems e by (auto simp: pending_get_insert)
  then show ?case
    using Cons.IH[of "insert_entry E e p"] Cons.prems by (simp add: pending_ok_insert)
qed simp

text \<open>What is stored for a policy: an entry of the policy, and a block where a block was given.\<close>

definition stored :: "'p \<Rightarrow> entry set" where
  "stored p = {(q, f, a). \<exists>m. (q, m) \<in> set (pm_into_iter E p) \<and> hm_get m f = Some a}"

lemma lookup_iter: "pm_inv p \<Longrightarrow> (q, m) \<in> set (pm_into_iter E p) \<Longrightarrow> pm_lookup E p q = Some m"
  unfolding pm_lookup_def
  by (rule map_of_is_SomeI) (force simp: comp_def case_prod_unfold dest: iter_distinct)+

lemma iter_lookup:
  "pm_lookup E p q = Some m \<Longrightarrow> \<exists>q'. (q', m) \<in> set (pm_into_iter E p) \<and> net_trunc E q' = net_trunc E q"
  unfolding pm_lookup_def by (drule map_of_SomeD) (auto intro: sym)

lemma iter_wf: "pending_ok p \<Longrightarrow> (q, m) \<in> set (pm_into_iter E p) \<Longrightarrow> hm_wf m"
  using lookup_iter[of p q m] by (simp add: pending_ok_def)

lemma stored_get: "pending_ok p \<Longrightarrow> (q, f, a) \<in> stored p \<Longrightarrow> pending_get E p q f = Some a"
  by (auto simp: stored_def pending_get_def pending_ok_def dest: lookup_iter)

lemma get_stored:
  "pending_get E p q f = Some a \<Longrightarrow> \<exists>q'. (q', f, a) \<in> stored p \<and> net_trunc E q' = net_trunc E q"
  by (auto simp: stored_def pending_get_def bind_eq_Some_conv dest!: iter_lookup)

lemma entry_matches_trunc:
  "net_trunc E q = net_trunc E q' \<Longrightarrow>
   entry_matches E addr pr po (q, f, a) = entry_matches E addr pr po (q', f, a)"
  using trunc_eq_contains[of q q'] by (simp add: entry_matches_filter)

text \<open>The candidates that selection compares, and how they relate to the stored entries.\<close>

lemma compiled_cover:
  assumes "pending_ok p"
  shows "set (pm_cover E (compile_rules E p) n) =
    {(q, sort_key (\<lambda>(f, a). Reverse (rule_priority (net_prefix_len q) f a)) (hash_order E m)) | q m.
       (q, m) \<in> set (pm_into_iter E p) \<and> net_contains E q n}"
proof -
  have "distinct (map (\<lambda>(q, _). net_trunc E q) (pm_into_iter E p))"
    using assms by (simp add: pending_ok_def iter_distinct)
  then show ?thesis
    unfolding compile_rules_def
    by (subst cover_collect) (force simp: comp_def case_prod_unfold image_iff)+
qed

lemma hash_order_set: "set (hash_order E m) = set m"
  using hash_order_perm[of m] by (metis set_mset_mset)

lemma filter_action_best:
  assumes "filter_action (sort_key (\<lambda>(f, a). Reverse (rule_priority l f a)) (hash_order E m)) pr po = Some (f, a)"
    and "hm_wf m"
  shows "hm_get m f = Some a \<and> filter_matches (transport_protocol pr) po (f, a) \<and>
    (\<forall>f' a'. hm_get m f' = Some a' \<longrightarrow> filter_matches (transport_protocol pr) po (f', a') \<longrightarrow>
       rule_priority l f' a' \<le> rule_priority l f a)"
proof -
  let ?xs = "sort_key (\<lambda>(f, a). Reverse (rule_priority l f a)) (hash_order E m)"
  have "sorted (map (\<lambda>x. Reverse (rule_priority l (fst x) (snd x))) ?xs)"
    using sorted_sort_key[of "\<lambda>(f, a). Reverse (rule_priority l f a)" "hash_order E m"]
    by (simp add: case_prod_unfold)
  from find_sorted_first[OF this assms(1) [unfolded filter_action_def]]
  show ?thesis
    using assms(2) by (auto simp: hash_order_set hm_get_Some_in)
qed

lemma filter_action_None:
  "filter_action (sort_key g (hash_order E m)) pr po = None \<longleftrightarrow>
     (\<forall>x \<in> set m. \<not> filter_matches (transport_protocol pr) po x)"
  by (auto simp: filter_action_def find_None_iff hash_order_set)

definition candidates :: "'p \<Rightarrow> ipv4addr \<Rightarrow> IpProtocol \<Rightarrow> u16 option \<Rightarrow> (priority \<times> Action) list" where
  "candidates p addr pr po =
     List.map_filter (\<lambda>(prefix, filters).
       map_option (\<lambda>(flt, action). (rule_priority (net_prefix_len prefix) flt action, action))
         (filter_action filters pr po))
       (pm_cover E (compile_rules E p) (net_from_addr E addr))"

lemma candidates_stored:
  assumes ok: "pending_ok p" and c: "(k, b) \<in> set (candidates p addr pr po)"
  shows "\<exists>e \<in> stored p. entry_matches E addr pr po e \<and> k = entry_priority e \<and> b = priority_action k"
proof -
  from c obtain q m f a where qm: "(q, m) \<in> set (pm_into_iter E p)" and "net_contains E q (net_from_addr E addr)"
    and fa: "filter_action (sort_key (\<lambda>(f, a). Reverse (rule_priority (net_prefix_len q) f a)) (hash_order E m)) pr po
      = Some (f, a)" and "k = rule_priority (net_prefix_len q) f a" "b = a"
    by (auto simp: candidates_def List.map_filter_def compiled_cover[OF ok] split: option.splits)
  moreover have "hm_wf m" using ok qm by (rule iter_wf)
  ultimately have "(q, f, a) \<in> stored p" "entry_matches E addr pr po (q, f, a)"
    using filter_action_best[OF fa] by (auto simp: stored_def entry_matches_filter)
  then show ?thesis
    using \<open>k = _\<close> \<open>b = a\<close> by force
qed

lemma stored_candidates:
  assumes ok: "pending_ok p" and e: "e \<in> stored p" "entry_matches E addr pr po e"
  shows "\<exists>(k, b) \<in> set (candidates p addr pr po). entry_priority e \<le> k"
proof -
  obtain q f a where eq: "e = (q, f, a)" by (cases e)
  from e eq obtain m where qm: "(q, m) \<in> set (pm_into_iter E p)" and get: "hm_get m f = Some a"
    and cont: "net_contains E q (net_from_addr E addr)"
    and fm: "filter_matches (transport_protocol pr) po (f, a)"
    by (auto simp: stored_def entry_matches_filter)
  have wf: "hm_wf m" using ok qm by (rule iter_wf)
  let ?s = "sort_key (\<lambda>(f, a). Reverse (rule_priority (net_prefix_len q) f a)) (hash_order E m)"
  have "filter_action ?s pr po \<noteq> None"
    using get fm wf by (auto simp: filter_action_None hm_get_Some_in)
  then obtain f' a' where fa: "filter_action ?s pr po = Some (f', a')" by auto
  have "rule_priority (net_prefix_len q) f a \<le> rule_priority (net_prefix_len q) f' a'"
    using filter_action_best[OF fa wf] get fm by blast
  moreover have "(rule_priority (net_prefix_len q) f' a', a') \<in> set (candidates p addr pr po)"
    unfolding candidates_def List.map_filter_def set_map comp_def
  proof (rule image_eqI)
    show "(q, ?s) \<in> set (List.filter (\<lambda>x. (case x of (prefix, filters) \<Rightarrow>
        map_option (\<lambda>(flt, action). (rule_priority (net_prefix_len prefix) flt action, action))
          (filter_action filters pr po)) \<noteq> None) (pm_cover E (compile_rules E p) (net_from_addr E addr)))"
      unfolding set_filter compiled_cover[OF ok] using qm cont by (simp add: fa del: not_None_eq) blast
  qed (simp add: fa)
  ultimately show ?thesis
    by (intro bexI[of _ "(rule_priority (net_prefix_len q) f' a', a')"]) (simp_all add: eq)
qed

lemma select_compiled:
  assumes ok: "pending_ok p" and B: "finite B"
    and sub: "entry_priority ` {e \<in> stored p. entry_matches E addr pr po e} \<subseteq> B"
    and dom: "\<And>b. b \<in> B \<Longrightarrow> \<exists>e \<in> stored p. entry_matches E addr pr po e \<and> b \<le> entry_priority e"
  shows "map_option snd (max_by_key fst (candidates p addr pr po)) =
    (if B = {} then None else Some (priority_action (Max B)))"
proof (cases "max_by_key fst (candidates p addr pr po)")
  case None
  then have "candidates p addr pr po = []" by simp
  then have "B = {}" using dom stored_candidates[OF ok] by fastforce
  with None show ?thesis by simp
next
  case (Some m)
  let ?A = "fst ` set (candidates p addr pr po)"
  have m: "m \<in> set (candidates p addr pr po)" using max_by_key_Some[OF Some] by blast
  have "?A \<subseteq> B"
    using candidates_stored[OF ok] sub by force
  moreover have "\<exists>a \<in> ?A. b \<le> a" if "b \<in> B" for b
  proof -
    from dom[OF that] obtain e where e: "e \<in> stored p" "entry_matches E addr pr po e"
      and le: "b \<le> entry_priority e" by blast
    from stored_candidates[OF ok e] obtain k c where "(k, c) \<in> set (candidates p addr pr po)"
      and "entry_priority e \<le> k" by blast
    then have "k \<in> ?A" and "b \<le> k" using le order_trans by (force, blast)
    then show ?thesis by blast
  qed
  ultimately have "Max ?A = Max B"
    using m B by (intro Max_dominated) auto
  then have "fst m = Max B" using max_by_key_Max[OF Some] by simp
  moreover have "snd m = priority_action (fst m)"
    using candidates_stored[OF ok, of "fst m" "snd m"] m by auto
  moreover have "B \<noteq> {}" using m \<open>?A \<subseteq> B\<close> by auto
  ultimately show ?thesis using Some by simp
qed

lemma select_policy:
  "select E (Rules_new E host peers allow block) addr dir pr po =
     select_spec E (policy_entries E host peers allow block dir) addr pr po"
proof -
  define es where "es = policy_entries E host peers allow block dir"
  define p where "p = fold (insert_entry E) es (pm_new E)"
  define B where "B = entry_priority ` {e \<in> set es. entry_matches E addr pr po e}"
  have ok: "pending_ok p" by (simp add: p_def pending_ok_fold pending_ok_new)
  have from_es: "\<exists>q'. (q', f, a) \<in> set es \<and> net_trunc E q' = net_trunc E q"
    if "(q, f, a) \<in> stored p" for q f a
    using pending_get_fold_from[OF pending_ok_new, of es q f a] stored_get[OF ok that]
    by (simp add: p_def)
  have sub: "entry_priority ` {e \<in> stored p. entry_matches E addr pr po e} \<subseteq> B"
  proof
    fix k assume "k \<in> entry_priority ` {e \<in> stored p. entry_matches E addr pr po e}"
    then obtain q f a where st: "(q, f, a) \<in> stored p" and mt: "entry_matches E addr pr po (q, f, a)"
      and k: "k = rule_priority (net_prefix_len q) f a" by auto
    from from_es[OF st] obtain q' where q': "(q', f, a) \<in> set es" "net_trunc E q' = net_trunc E q"
      by blast
    moreover have "entry_matches E addr pr po (q', f, a)" "k = entry_priority (q', f, a)"
      using mt k entry_matches_trunc[OF q'(2)] trunc_eq_len[OF q'(2)] by simp_all
    ultimately show "k \<in> B" unfolding B_def by blast
  qed
  have dom: "\<exists>e \<in> stored p. entry_matches E addr pr po e \<and> b \<le> entry_priority e" if "b \<in> B" for b
  proof -
    from that obtain q f a where es: "(q, f, a) \<in> set es" and mt: "entry_matches E addr pr po (q, f, a)"
      and b: "b = rule_priority (net_prefix_len q) f a" by (auto simp: B_def)
    obtain as bs where split: "es = as @ bs" and as: "\<forall>(q, f, a) \<in> set as. a = Allow"
      and bs: "\<forall>(q, f, a) \<in> set bs. a = Block"
      using policy_entries_split[of E host peers allow block dir] unfolding es_def [symmetric]
      by (elim exE conjE) (rule that)
    obtain a' where a': "pending_get E p q f = Some a'" and worse: "a' = a \<or> a' = Block"
    proof (cases a)
      case Block
      then have "(q, f, Block) \<in> set bs" using es as split by auto
      then have "pending_get E p q f = Some Block"
        using pending_get_blocks[OF pending_ok_fold[OF pending_ok_new] bs] by (simp add: p_def split)
      then show ?thesis using that by blast
    next
      case Allow
      obtain a' where "pending_get E p q f = Some a'"
        using pending_get_fold_in[OF pending_ok_new es] by (auto simp: p_def)
      then show ?thesis using that Allow by (cases a') auto
    qed
    from get_stored[OF a'] obtain q' where q': "(q', f, a') \<in> stored p" "net_trunc E q' = net_trunc E q"
      by blast
    have "entry_matches E addr pr po (q, f, a')"
      using mt worse filter_matches_block by (auto simp: entry_matches_filter)
    moreover have "b \<le> rule_priority (net_prefix_len q') f a'"
      using b worse priority_block_max trunc_eq_len[OF q'(2)] by auto
    ultimately show ?thesis
      using q' entry_matches_trunc[OF q'(2)] by (intro bexI[of _ "(q', f, a')"]) auto
  qed
  have "finite B" by (simp add: B_def)
  then have "map_option snd (max_by_key fst (candidates p addr pr po)) =
      (if B = {} then None else Some (priority_action (Max B)))"
    using sub dom by (rule select_compiled[OF ok])
  moreover have "select E (Rules_new E host peers allow block) addr dir pr po =
      map_option snd (max_by_key fst (candidates p addr pr po))"
    by (cases dir) (simp_all add: select_def Rules_new_entries candidates_def p_def es_def)
  moreover have "B = set (map entry_priority (List.filter (entry_matches E addr pr po) es))"
    by (simp add: B_def)
  ultimately show ?thesis
    by (simp only: select_spec_def Let_def es_def set_empty)
qed

text \<open>The rule count: one per distinct prefix and filter in each direction.\<close>

lemma sum_lengths_card:
  fixes es :: "(Ipv4Net \<times> FilterMap) list"
  assumes "distinct (map (\<lambda>(q, _). net_trunc E q) es)" "\<forall>(q, m) \<in> set es. hm_wf m"
  shows "sum_list (map (\<lambda>(q, m). length m) es) =
    card {(net_trunc E q, f) | q m f. (q, m) \<in> set es \<and> hm_get m f \<noteq> None}"
  using assms
proof (induction es)
  case (Cons e es)
  obtain q m where e: "e = (q, m)" by (cases e)
  let ?A = "{(net_trunc E q, f) | f. hm_get m f \<noteq> None}"
  let ?B = "{(net_trunc E q, f) | q m f. (q, m) \<in> set es \<and> hm_get m f \<noteq> None}"
  have A: "?A = Pair (net_trunc E q) ` dom (hm_get m)" by auto
  have fd: "finite (dom (hm_get m))" for m :: FilterMap
    by (simp add: hm_get_def [abs_def] finite_dom_map_of)
  then have finA: "finite ?A" unfolding A by simp
  have "?B \<subseteq> (\<lambda>(q, m). net_trunc E q) ` set es \<times> (\<Union>(q, m) \<in> set es. dom (hm_get m))"
    by force
  moreover have "finite ((\<lambda>(q, m). net_trunc E q) ` set es \<times> (\<Union>(q, m) \<in> set es. dom (hm_get m)))"
    using fd by (intro finite_cartesian_product finite_UN_I) (auto split: prod.splits)
  ultimately have finB: "finite ?B" by (rule finite_subset)
  have "?A \<inter> ?B = {}"
    using Cons.prems(1) e by (force simp: image_iff)
  moreover have "{(net_trunc E q, f) | q m f. (q, m) \<in> set (e # es) \<and> hm_get m f \<noteq> None} = ?A \<union> ?B"
    using e by auto
  moreover have "card ?A = length m"
    using Cons.prems(2) e unfolding A
    by (simp add: card_image inj_on_def hm_len_card [symmetric] hm_len_def)
  ultimately show ?case
    using Cons e finA finB by (simp add: card_Un_disjoint)
qed simp

lemma compiled_len:
  assumes ok: "pending_ok p"
  shows "sum_list (map length (pm_values E (compile_rules E p))) =
    card {(net_trunc E q, f) | q f. pending_get E p q f \<noteq> None}"
proof -
  let ?es = "map (\<lambda>(q, m). (q, sort_key (\<lambda>(f, a). Reverse (rule_priority (net_prefix_len q) f a))
    (hash_order E m))) (pm_into_iter E p)"
  have d: "distinct (map (\<lambda>(q, _). net_trunc E q) (pm_into_iter E p))"
    using ok by (simp add: pending_ok_def iter_distinct)
  then have "distinct (map (\<lambda>(q, _). net_trunc E q) ?es)"
    by (simp add: comp_def case_prod_unfold)
  then have "mset (map length (pm_values E (compile_rules E p))) = mset (map length (map snd ?es))"
    unfolding compile_rules_def mset_map using values_collect[of ?es] by (simp only: mset_map)
  then have "sum_list (map length (pm_values E (compile_rules E p))) = sum_list (map length (map snd ?es))"
    unfolding sum_mset_sum_list [symmetric] by (rule arg_cong)
  also have "\<dots> = sum_list (map (\<lambda>(q, m). length m) (pm_into_iter E p))"
    using hash_order_perm by (simp add: comp_def case_prod_unfold) (metis size_mset)
  also have "\<dots> = card {(net_trunc E q, f) | q m f. (q, m) \<in> set (pm_into_iter E p) \<and> hm_get m f \<noteq> None}"
    using d iter_wf[OF ok] by (intro sum_lengths_card) auto
  also have "{(net_trunc E q, f) | q m f. (q, m) \<in> set (pm_into_iter E p) \<and> hm_get m f \<noteq> None} =
      {(net_trunc E q, f) | q f. pending_get E p q f \<noteq> None}"
    using ok by (auto simp: pending_get_def pending_ok_def bind_eq_Some_conv
        dest!: iter_lookup) (metis lookup_iter, metis)
  finally show ?thesis .
qed

lemma policy_len:
  "Rules_len E (Rules_new E host peers allow block) =
     card (entry_key E ` set (policy_entries E host peers allow block In)) +
     card (entry_key E ` set (policy_entries E host peers allow block Out))"
proof -
  have keys: "{(net_trunc E q, f) | q f. pending_get E (fold (insert_entry E) es (pm_new E)) q f \<noteq> None}
      = entry_key E ` set es" for es
  proof (intro set_eqI iffI)
    fix x assume "x \<in> {(net_trunc E q, f) | q f. pending_get E (fold (insert_entry E) es (pm_new E)) q f \<noteq> None}"
    then obtain q f a where x: "x = (net_trunc E q, f)"
      and "pending_get E (fold (insert_entry E) es (pm_new E)) q f = Some a" by auto
    from pending_get_fold_from[OF pending_ok_new this(2)] obtain q'
      where "(q', f, a) \<in> set es" "net_trunc E q' = net_trunc E q" by auto
    then show "x \<in> entry_key E ` set es" using x by (force simp: entry_key_def)
  next
    fix x assume "x \<in> entry_key E ` set es"
    then obtain q f a where "(q, f, a) \<in> set es" "x = (net_trunc E q, f)"
      by (auto simp: entry_key_def)
    then show "x \<in> {(net_trunc E q, f) | q f. pending_get E (fold (insert_entry E) es (pm_new E)) q f \<noteq> None}"
      using pending_get_fold_in[OF pending_ok_new] by blast
  qed
  have ok: "pending_ok (fold (insert_entry E) es (pm_new E))" for es
    by (simp add: pending_ok_fold pending_ok_new)
  show ?thesis
    using compiled_len[OF ok] keys by (simp add: Rules_len_def Rules_new_entries)
qed

text \<open>Consequences of the specification for policies.\<close>

lemma select_spec_cong: "set es = set es' \<Longrightarrow> select_spec E es addr pr po = select_spec E es' addr pr po"
proof -
  assume "set es = set es'"
  then have "set (map entry_priority (List.filter (entry_matches E addr pr po) es)) =
      set (map entry_priority (List.filter (entry_matches E addr pr po) es'))" by simp
  then show ?thesis unfolding select_spec_def Let_def by (metis set_empty)
qed

lemma policy_mode_cong: "set allow = set allow' \<Longrightarrow> set block = set block' \<Longrightarrow>
    policy_mode allow block = policy_mode allow' block'"
  by (simp add: policy_mode_def list_ex_iff)

lemma select_reordered:
  assumes "set allow = set allow'" "set block = set block'"
  shows "select E (Rules_new E host peers allow block) = select E (Rules_new E host peers allow' block')"
proof (intro ext)
  fix addr dir pr po
  have "set (policy_entries E host peers allow block dir) = set (policy_entries E host peers allow' block' dir)"
    using assms policy_mode_cong[OF assms] by (simp add: policy_entries_def Let_def)
  then show "select E (Rules_new E host peers allow block) addr dir pr po =
      select E (Rules_new E host peers allow' block') addr dir pr po"
    unfolding select_policy by (rule select_spec_cong)
qed

lemma select_spec_dominated:
  assumes "set es \<subseteq> set es'"
    and dom: "\<And>e. e \<in> set es' \<Longrightarrow> entry_matches E addr pr po e \<Longrightarrow>
      \<exists>e' \<in> set es. entry_matches E addr pr po e' \<and> entry_priority e \<le> entry_priority e'"
  shows "select_spec E es' addr pr po = select_spec E es addr pr po"
proof -
  let ?P = "\<lambda>es. entry_priority ` {e \<in> set es. entry_matches E addr pr po e}"
  have spec: "select_spec E es addr pr po = (if ?P es = {} then None else Some (priority_action (Max (?P es))))"
    for es unfolding select_spec_def Let_def by (simp only: set_map set_filter flip: set_empty)
  have sub: "?P es \<subseteq> ?P es'" using assms(1) by blast
  show ?thesis
  proof (cases "?P es = {}")
    case True
    then have "?P es' = {}" using dom by blast
    with True show ?thesis unfolding spec by simp
  next
    case False
    have "Max (?P es) = Max (?P es')"
    proof (rule Max_dominated[OF _ sub False])
      fix b assume "b \<in> ?P es'"
      then obtain e where "e \<in> set es'" "entry_matches E addr pr po e" "b = entry_priority e" by blast
      with dom show "\<exists>a \<in> ?P es. b \<le> a" by blast
    qed simp
    moreover have "?P es' \<noteq> {}" using False sub by blast
    ultimately show ?thesis unfolding spec using False by (simp only: if_False)
  qed
qed

lemma select_allow_also_blocked:
  assumes r: "r \<in> set block"
  shows "select E (Rules_new E host peers (r # allow) block) = select E (Rules_new E host peers allow block)"
proof (intro ext, unfold select_policy, rule select_spec_dominated)
  fix addr dir pr po
  have mode: "policy_mode (r # allow) block = policy_mode allow block"
    using r by (auto simp: policy_mode_def list_ex_iff)
  let ?m = "policy_mode allow block"
  show "set (policy_entries E host peers allow block dir) \<subseteq>
      set (policy_entries E host peers (r # allow) block dir)"
    by (auto simp: policy_entries_def Let_def mode)
  fix e assume "e \<in> set (policy_entries E host peers (r # allow) block dir)"
    and mt: "entry_matches E addr pr po e"
  then consider "e \<in> set (policy_entries E host peers allow block dir)"
    | "e \<in> set (rule_entries E host peers ?m dir Allow r)"
    by (auto simp: policy_entries_def Let_def mode)
  then show "\<exists>e' \<in> set (policy_entries E host peers allow block dir).
      entry_matches E addr pr po e' \<and> entry_priority e \<le> entry_priority e'"
  proof cases
    case 1
    with mt show ?thesis by blast
  next
    case 2
    obtain q f b where "e = (q, f, b)" by (cases e)
    then have e: "e = (q, f, Allow)" using 2 rule_entries_action by blast
    with 2 have "(q, f, Block) \<in> set (rule_entries E host peers ?m dir Block r)"
      using rule_entries_flip by blast
    then have "(q, f, Block) \<in> set (policy_entries E host peers allow block dir)"
      using r by (auto simp: policy_entries_def Let_def)
    moreover have "entry_matches E addr pr po (q, f, Block)"
      using mt filter_matches_block by (auto simp: e entry_matches_filter)
    moreover have "entry_priority e \<le> entry_priority (q, f, Block)"
      by (simp add: e priority_block_max)
    ultimately show ?thesis by blast
  qed
qed

text \<open>A policy of stateless rules is a longest-prefix match in which blocks win ties.\<close>

lemma policy_mode_stateless:
  "\<not> list_ex is_stateful_rule allow \<Longrightarrow> \<not> list_ex is_stateful_rule block \<Longrightarrow>
   policy_mode allow block = LegacyMode"
  by (simp add: policy_mode_def)

lemma stateless_entries:
  "\<not> list_ex is_stateful_rule rules \<Longrightarrow>
   concat (map (rule_entries E host peers LegacyMode Out a) rules) =
     map (\<lambda>p. (p, Filter_default, a)) (rules_prefixes E host peers rules)"
proof (induction rules)
  case (Cons r rules)
  then show ?case by (cases r) (simp_all add: rule_entries_def rules_prefixes_def)
qed (simp add: rules_prefixes_def)

lemma stateless_matches:
  "entry_matches E addr pr po (p, Filter_default, a) = net_contains E p (net_from_addr E addr)"
  by (simp add: entry_matches_filter filter_matches_def Filter_default_def)

lemma stateless_priority_le:
  "rule_priority l Filter_default a \<le> rule_priority l' Filter_default a' \<longleftrightarrow>
     l < l' \<or> l = l' \<and> (a = Block \<longrightarrow> a' = Block)"
  by (cases a; cases a') (auto simp: rule_priority_def Filter_default_def)

lemma select_spec_Some_iff:
  "select_spec E es addr pr po = Some a \<longleftrightarrow>
     (\<exists>q f. (q, f, a) \<in> set es \<and> entry_matches E addr pr po (q, f, a) \<and>
       (\<forall>e' \<in> set es. entry_matches E addr pr po e' \<longrightarrow>
          entry_priority e' \<le> rule_priority (net_prefix_len q) f a))" (is "?l \<longleftrightarrow> ?r")
proof -
  define P where "P = entry_priority ` {e \<in> set es. entry_matches E addr pr po e}"
  have spec: "select_spec E es addr pr po = (if P = {} then None else Some (priority_action (Max P)))"
    unfolding select_spec_def Let_def P_def by (simp only: set_map set_filter flip: set_empty)
  have fin: "finite P" by (simp add: P_def)
  show ?thesis
  proof
    assume ?l
    then have ne: "P \<noteq> {}" and a: "priority_action (Max P) = a"
      unfolding spec by (simp_all split: if_splits)
    obtain q f b where e: "(q, f, b) \<in> set es" "entry_matches E addr pr po (q, f, b)"
      and Max: "Max P = rule_priority (net_prefix_len q) f b"
      using Max_in[OF fin ne] by (auto simp: P_def)
    moreover have "b = a" using a Max by simp
    moreover have "\<forall>e' \<in> set es. entry_matches E addr pr po e' \<longrightarrow> entry_priority e' \<le> Max P"
      using Max_ge[OF fin] unfolding P_def by blast
    ultimately show ?r by metis
  next
    assume ?r
    then obtain q f where e: "(q, f, a) \<in> set es" "entry_matches E addr pr po (q, f, a)"
      and le: "\<forall>e' \<in> set es. entry_matches E addr pr po e' \<longrightarrow>
        entry_priority e' \<le> rule_priority (net_prefix_len q) f a" by blast
    have in_P: "rule_priority (net_prefix_len q) f a \<in> P"
      unfolding P_def using e by (intro image_eqI[of _ _ "(q, f, a)"]) simp_all
    then have "Max P = rule_priority (net_prefix_len q) f a"
      using le by (intro Max_eqI[OF fin]) (auto simp: P_def)
    moreover have "P \<noteq> {}" using in_P by blast
    ultimately show ?l unfolding spec by simp
  qed
qed

lemma select_stateless_allow:
  assumes "\<not> list_ex is_stateful_rule allow" "\<not> list_ex is_stateful_rule block"
  shows "select E (Rules_new E host peers allow block) addr Out pr po = Some Allow \<longleftrightarrow>
    (\<exists>p \<in> set (rules_prefixes E host peers allow). net_contains E p (net_from_addr E addr) \<and>
      (\<forall>p' \<in> set (rules_prefixes E host peers allow). net_contains E p' (net_from_addr E addr) \<longrightarrow>
         net_prefix_len p' \<le> net_prefix_len p) \<and>
      (\<forall>b \<in> set (rules_prefixes E host peers block). net_contains E b (net_from_addr E addr) \<longrightarrow>
         net_prefix_len b < net_prefix_len p))"
proof -
  have es: "policy_entries E host peers allow block Out =
      map (\<lambda>p. (p, Filter_default, Allow)) (rules_prefixes E host peers allow) @
      map (\<lambda>p. (p, Filter_default, Block)) (rules_prefixes E host peers block)"
    using assms by (simp add: policy_entries_def policy_mode_stateless stateless_entries)
  have in_es: "(q, f, a) \<in> set (policy_entries E host peers allow block Out) \<longleftrightarrow>
      f = Filter_default \<and> q \<in> set (rules_prefixes E host peers (if a = Allow then allow else block))"
    for q f a unfolding es by (cases a) auto
  have all: "(\<forall>e' \<in> set (policy_entries E host peers allow block Out). Q e') \<longleftrightarrow>
      (\<forall>p \<in> set (rules_prefixes E host peers allow). Q (p, Filter_default, Allow)) \<and>
      (\<forall>p \<in> set (rules_prefixes E host peers block). Q (p, Filter_default, Block))" for Q
    unfolding es by (simp add: ball_Un)
  show ?thesis
    unfolding select_policy select_spec_Some_iff all in_es
    by (simp add: stateless_matches stateless_priority_le) (auto simp: le_less)
qed

text \<open>
  A packet whose ports cannot be read matches every port block and no port allowance, so its
  decision is at most as permissive as the decision at any concrete port.
\<close>

lemma unknown_port_matches:
  assumes "pr = IpTcp \<or> pr = IpUdp"
  shows "entry_matches E addr pr (Some p) (q, f, Block) \<Longrightarrow> entry_matches E addr pr None (q, f, Block)"
    and "destination_port_range f = None \<Longrightarrow>
      entry_matches E addr pr None (q, f, a) = entry_matches E addr pr (Some p) (q, f, a)"
    and "entry_matches E addr pr None (q, f, Allow) \<Longrightarrow> destination_port_range f = None"
  using assms
  by (auto simp: entry_matches_filter filter_matches_def split: if_splits option.splits)

lemma range_first:
  "rule_priority l f a \<le> rule_priority l' f' a' \<Longrightarrow> destination_port_range f \<noteq> None \<Longrightarrow>
   destination_port_range f' \<noteq> None"
  by (auto simp: rule_priority_def)

lemma select_spec_ge:
  assumes "e \<in> set es" "entry_matches E addr pr po e"
  shows "\<exists>q f a. select_spec E es addr pr po = Some a \<and> (q, f, a) \<in> set es \<and>
    entry_matches E addr pr po (q, f, a) \<and> entry_priority e \<le> rule_priority (net_prefix_len q) f a"
proof -
  have "List.filter (entry_matches E addr pr po) es \<noteq> []"
    unfolding filter_empty_conv using assms by blast
  then obtain a where "select_spec E es addr pr po = Some a"
    by (simp add: select_spec_def Let_def)
  then show ?thesis using assms unfolding select_spec_Some_iff by blast
qed

lemma unknown_port_block:
  assumes pr: "pr = IpTcp \<or> pr = IpUdp" and blk: "select_spec E es addr pr (Some p) = Some Block"
  shows "select_spec E es addr pr None = Some Block"
proof -
  from blk obtain q f where e: "(q, f, Block) \<in> set es" "entry_matches E addr pr (Some p) (q, f, Block)"
    and le: "\<forall>e' \<in> set es. entry_matches E addr pr (Some p) e' \<longrightarrow>
      entry_priority e' \<le> rule_priority (net_prefix_len q) f Block"
    unfolding select_spec_Some_iff by blast
  have mt: "entry_matches E addr pr None (q, f, Block)" using unknown_port_matches(1)[OF pr e(2)] .
  from select_spec_ge[OF e(1) mt] obtain q0 f0 a where sel: "select_spec E es addr pr None = Some a"
    and e0: "(q0, f0, a) \<in> set es" "entry_matches E addr pr None (q0, f0, a)"
    and ge: "rule_priority (net_prefix_len q) f Block \<le> rule_priority (net_prefix_len q0) f0 a"
    unfolding entry_priority_simp by (elim exE conjE) (rule that)
  have "a = Block"
  proof (rule ccontr)
    assume "a \<noteq> Block"
    then have a: "a = Allow" by (cases a) auto
    with e0 have "destination_port_range f0 = None" using unknown_port_matches(3)[OF pr] by blast
    then have "entry_matches E addr pr (Some p) (q0, f0, a)"
      using e0(2) unknown_port_matches(2)[OF pr] by blast
    with le e0(1) have "entry_priority (q0, f0, a) \<le> rule_priority (net_prefix_len q) f Block"
      by blast
    then have "rule_priority (net_prefix_len q0) f0 a \<le> rule_priority (net_prefix_len q) f Block"
      unfolding entry_priority_simp .
    from this ge have "rule_priority (net_prefix_len q0) f0 a = rule_priority (net_prefix_len q) f Block"
      by (rule antisym)
    then have "priority_action (rule_priority (net_prefix_len q0) f0 a) =
        priority_action (rule_priority (net_prefix_len q) f Block)" by (rule arg_cong)
    then have "a = Block" unfolding priority_action_priority .
    with a show False by simp
  qed
  with sel show ?thesis by simp
qed

lemma select_unknown_port:
  assumes pr: "pr = IpTcp \<or> pr = IpUdp" and R_def: "R = Rules_new E host peers allow block"
  shows "select E R addr dir pr None \<noteq> Some Block \<Longrightarrow> select E R addr dir pr (Some p) \<noteq> Some Block"
    and "select E R addr dir pr None = Some Allow \<Longrightarrow> select E R addr dir pr (Some p) = Some Allow"
proof -
  let ?es = "policy_entries E host peers allow block dir"
  show *: "select E R addr dir pr None \<noteq> Some Block \<Longrightarrow> select E R addr dir pr (Some p) \<noteq> Some Block"
    unfolding R_def select_policy using unknown_port_block[OF pr] by blast
  assume al: "select E R addr dir pr None = Some Allow"
  then obtain q f where e: "(q, f, Allow) \<in> set ?es" "entry_matches E addr pr None (q, f, Allow)"
    unfolding R_def select_policy select_spec_Some_iff by blast
  then have "entry_matches E addr pr (Some p) (q, f, Allow)"
    using unknown_port_matches(2,3)[OF pr] by blast
  from select_spec_ge[OF e(1) this] obtain a where "select E R addr dir pr (Some p) = Some a"
    unfolding R_def select_policy by blast
  moreover have "a \<noteq> Block" using * al calculation by auto
  ultimately show "select E R addr dir pr (Some p) = Some Allow" by (cases a) simp_all
qed

text \<open>The decision follows the mode, and a policy of stateless rules has no inbound entries.\<close>

lemma legacy_inbound: "policy_mode allow block = LegacyMode \<Longrightarrow> policy_entries E host peers allow block In = []"
proof -
  assume "policy_mode allow block = LegacyMode"
  moreover from this have "r \<in> set (allow @ block) \<Longrightarrow> \<not> is_stateful_rule r" for r
    by (auto simp: policy_mode_def list_ex_iff split: if_splits)
  then have "r \<in> set (allow @ block) \<Longrightarrow> rule_entries E host peers LegacyMode In a r = []" for r a
    by (cases r) (fastforce simp: rule_entries_def)+
  ultimately show ?thesis by (simp add: policy_entries_def concat_eq_Nil_conv)
qed

lemma decision_stateless:
  assumes "policy_decision E (Rules_new E host peers allow block) pkt dir = Some AllowStateless"
  shows "dir = Out" and "\<not> has_stateful (Rules_new E host peers allow block)"
proof -
  from assms have mode: "policy_mode allow block = LegacyMode"
    by (simp add: policy_decision_iff(1))
  then show "\<not> has_stateful (Rules_new E host peers allow block)" by (simp add: has_stateful_def)
  show "dir = Out"
    using assms legacy_inbound[OF mode]
    by (cases dir) (auto simp: policy_decision_def Let_def select_policy select_spec_def)
qed

lemma decision_stateful:
  "policy_decision E R pkt dir = Some AllowStateful \<Longrightarrow> has_stateful R"
  by (simp add: policy_decision_iff(2) has_stateful_def)

end

section \<open>A computing instance\<close>

fun ref_alter :: "Ipv4Net \<Rightarrow> (FilterMap \<Rightarrow> FilterMap) \<Rightarrow> (Ipv4Net \<times> FilterMap) list \<Rightarrow>
    (Ipv4Net \<times> FilterMap) list" where
  "ref_alter k f [] = [(k, f [])]"
| "ref_alter k f ((q, m) # p) =
     (if ref_trunc q = ref_trunc k then (q, f m) # p else (q, m) # ref_alter k f p)"

definition ref_policy :: "((Ipv4Net \<times> FilterMap) list, (Ipv4Net \<times> FilterRules) list) policy_ext" where
  "ref_policy =
     \<lparr>net_from_str = ref_from_str, net_to_string = ref_to_string, net_default = Ipv4Net 0 0,
      net_from_addr = (\<lambda>a. Ipv4Net a 32), net_trunc = ref_trunc, net_contains = ref_contains,
      pm_new = [], pm_entry_alter = ref_alter, pm_into_iter = (\<lambda>p. p), pm_collect = (\<lambda>es. es),
      pm_cover = (\<lambda>m q. List.filter (\<lambda>(p, _). ref_contains p q) m), pm_values = map snd,
      hash_order = (\<lambda>m. m)\<rparr>"

definition ref_pm_inv :: "(Ipv4Net \<times> FilterMap) list \<Rightarrow> bool" where
  "ref_pm_inv p = distinct (map (\<lambda>(q, _). ref_trunc q) p)"

lemma ref_alter_keys:
  "(\<lambda>(q, _). ref_trunc q) ` set (ref_alter k f p) = insert (ref_trunc k) ((\<lambda>(q, _). ref_trunc q) ` set p)"
  by (induction k f p rule: ref_alter.induct) auto

lemma ref_alter_inv: "ref_pm_inv p \<Longrightarrow> ref_pm_inv (ref_alter k f p)"
  unfolding ref_pm_inv_def
  by (induction k f p rule: ref_alter.induct) (auto simp: ref_alter_keys)

lemma ref_alter_lookup:
  "map_of (map (\<lambda>(q, v). (ref_trunc q, v)) (ref_alter k f p)) t =
     (if t = ref_trunc k
      then Some (f (case map_of (map (\<lambda>(q, v). (ref_trunc q, v)) p) (ref_trunc k) of None \<Rightarrow> [] | Some v \<Rightarrow> v))
      else map_of (map (\<lambda>(q, v). (ref_trunc q, v)) p) t)"
  by (induction k f p rule: ref_alter.induct) auto

interpretation ref_pol: policy_api ref_policy ref_pm_inv
proof (intro policy_api.intro policy_api_axioms.intro)
  show "ipnet_api ref_policy"
    by (rule ipnet_api_cong[OF ref_net.ipnet_api_axioms]) (simp_all add: ref_policy_def ref_ipnet_def)
next
  fix p k f k'
  assume "ref_pm_inv p"
  then show "ref_pm_inv (pm_entry_alter ref_policy k f p)"
    and "distinct (map (\<lambda>(q, _). net_trunc ref_policy q) (pm_into_iter ref_policy p))"
    by (simp_all add: ref_policy_def ref_alter_inv) (simp add: ref_pm_inv_def)
  show "pm_lookup ref_policy (pm_entry_alter ref_policy k f p) k' =
      (if net_trunc ref_policy k' = net_trunc ref_policy k
       then Some (f (case pm_lookup ref_policy p k of None \<Rightarrow> [] | Some v \<Rightarrow> v))
       else pm_lookup ref_policy p k')"
    by (simp add: ref_policy_def pm_lookup_def ref_alter_lookup)
next
  fix es q
  show "set (pm_cover ref_policy (pm_collect ref_policy es) q) = {(p, v) \<in> set es. net_contains ref_policy p q}"
    by (auto simp: ref_policy_def)
qed (simp_all add: ref_policy_def ref_pm_inv_def)

section \<open>Properties\<close>

text \<open>
  C4: selecting an action from the two compiled prefix maps gives, for every address, direction,
  protocol and port, the action of the matching rule of highest priority in the flat list of what
  the rules say: port rules first, then longer prefixes, then protocol rules, then narrower port
  ranges, then blocks over allowances.
\<close>

theorem select_correct:
  assumes "policy_api E pm_inv"
  shows "select E (Rules_new E host peers allow block) addr dir proto port =
    select_spec E (policy_entries E host peers allow block dir) addr proto port"
  by (rule policy_api.select_policy[OF assms])

theorem select_correct_witness:
  "select ref_policy
     (Rules_new ref_policy 1 [] [Stateless (Prefix (Ipv4Net 167772165 32))]
       [Stateless (Prefix (Ipv4Net 0 0)),
        Stateful Out (Prefix (Ipv4Net 0 0))
          \<lparr>protocol = Some Tcp, destination_port_range = Some \<lparr>pr_start = 20, pr_end = 25\<rparr>\<rparr>])
     167772165 Out IpTcp (Some 22) = Some Block"
  unfolding select_correct[OF ref_pol.policy_api_axioms] by code_simp

text \<open>
  C36: a TCP or UDP packet whose ports cannot be read (a fragment or a truncated header) is treated
  at most as permissively as the same packet at any port: if it is not blocked then no port is
  blocked, and if it is allowed then every port is allowed.
\<close>

theorem unknown_port_conservative:
  assumes "policy_api E pm_inv" and "proto = IpTcp \<or> proto = IpUdp"
  shows "(select E (Rules_new E host peers allow block) addr dir proto None \<noteq> Some Block \<longrightarrow>
      select E (Rules_new E host peers allow block) addr dir proto (Some port) \<noteq> Some Block) \<and>
    (select E (Rules_new E host peers allow block) addr dir proto None = Some Allow \<longrightarrow>
      select E (Rules_new E host peers allow block) addr dir proto (Some port) = Some Allow)"
  using policy_api.select_unknown_port[OF assms refl] by blast

theorem unknown_port_conservative_witness:
  "select ref_policy (Rules_new ref_policy 1 [] [Stateful In (Prefix (Ipv4Net 0 0)) Filter_default] [])
     7 In IpUdp (Some 53) = Some Allow"
proof -
  have "select ref_policy (Rules_new ref_policy 1 [] [Stateful In (Prefix (Ipv4Net 0 0)) Filter_default] [])
     7 In IpUdp None = Some Allow" by code_simp
  then show ?thesis
    using unknown_port_conservative[OF ref_pol.policy_api_axioms, of IpUdp 1 "[]"
        "[Stateful In (Prefix (Ipv4Net 0 0)) Filter_default]" "[]" 7 In 53] by simp
qed

text \<open>
  C37: a policy of bare targets is a longest-prefix match: an outbound packet is allowed exactly when
  some allowed prefix contains its destination and is longer than every blocked prefix that does.
\<close>

theorem stateless_longest_prefix:
  assumes "policy_api E pm_inv"
    and "\<not> list_ex is_stateful_rule allow" and "\<not> list_ex is_stateful_rule block"
  shows "select E (Rules_new E host peers allow block) addr Out proto port = Some Allow \<longleftrightarrow>
    (\<exists>p \<in> set (rules_prefixes E host peers allow). net_contains E p (net_from_addr E addr) \<and>
      (\<forall>b \<in> set (rules_prefixes E host peers block). net_contains E b (net_from_addr E addr) \<longrightarrow>
         net_prefix_len b < net_prefix_len p))" (is "_ \<longleftrightarrow> ?r")
proof
  assume "select E (Rules_new E host peers allow block) addr Out proto port = Some Allow"
  then show ?r unfolding policy_api.select_stateless_allow[OF assms] by blast
next
  let ?A = "{p \<in> set (rules_prefixes E host peers allow). net_contains E p (net_from_addr E addr)}"
  assume ?r
  then obtain p where p: "p \<in> ?A" and longer: "\<forall>b \<in> set (rules_prefixes E host peers block).
      net_contains E b (net_from_addr E addr) \<longrightarrow> net_prefix_len b < net_prefix_len p" by blast
  have "finite ?A" by simp
  then obtain m where m: "m \<in> ?A" "\<forall>q \<in> ?A. net_prefix_len q \<le> net_prefix_len m"
    using p by (rule finite_max_key)
  then have "net_prefix_len p \<le> net_prefix_len m" using p by blast
  with m longer show "select E (Rules_new E host peers allow block) addr Out proto port = Some Allow"
    unfolding policy_api.select_stateless_allow[OF assms]
    by (intro bexI[of _ m]) (auto dest: less_le_trans)
qed

theorem stateless_longest_prefix_witness:
  "select ref_policy (Rules_new ref_policy 1 [] [Stateless (Prefix (Ipv4Net 167772160 8))]
     [Stateless (Prefix (Ipv4Net 0 0))]) 167772165 Out (IpOther 50) None = Some Allow"
proof -
  have "\<exists>p \<in> set (rules_prefixes ref_policy 1 [] [Stateless (Prefix (Ipv4Net 167772160 8))]).
      net_contains ref_policy p (net_from_addr ref_policy 167772165) \<and>
      (\<forall>b \<in> set (rules_prefixes ref_policy 1 [] [Stateless (Prefix (Ipv4Net 0 0))]).
         net_contains ref_policy b (net_from_addr ref_policy 167772165) \<longrightarrow>
         net_prefix_len b < net_prefix_len p)" by code_simp
  then show ?thesis
    using stateless_longest_prefix[OF ref_pol.policy_api_axioms,
        of "[Stateless (Prefix (Ipv4Net 167772160 8))]" "[Stateless (Prefix (Ipv4Net 0 0))]" 1 "[]"
          167772165 "IpOther 50" None]
    by simp
qed

text \<open>
  C38: the order and the repetition of rules never matter, and listing a blocked rule as allowed as
  well changes no decision.
\<close>

theorem policy_insensitive:
  assumes "policy_api E pm_inv" and "set allow = set allow'" and "set block = set block'"
    and "extra \<subseteq> set block" and "set allow'' = set allow \<union> extra"
  shows "select E (Rules_new E host peers allow'' block) = select E (Rules_new E host peers allow' block')"
proof -
  have "finite extra" using assms(4) finite_subset by blast
  then obtain xs where xs: "set xs = extra" using finite_list by blast
  have "select E (Rules_new E host peers allow'' block) = select E (Rules_new E host peers (xs @ allow) block)"
    using assms xs by (intro policy_api.select_reordered[OF assms(1)]) auto
  also have "\<dots> = select E (Rules_new E host peers allow block)"
    using assms(4) xs [symmetric]
    by (induction xs arbitrary: extra) (simp_all add: policy_api.select_allow_also_blocked[OF assms(1)])
  also have "\<dots> = select E (Rules_new E host peers allow' block')"
    using assms by (intro policy_api.select_reordered) auto
  finally show ?thesis .
qed

theorem policy_insensitive_witness:
  "select ref_policy (Rules_new ref_policy 1 [] [Stateless Host, Stateless Peers] [Stateless Peers]) =
   select ref_policy (Rules_new ref_policy 1 [] [Stateless Host] [Stateless Peers, Stateless Peers])"
  by (rule policy_insensitive[OF ref_pol.policy_api_axioms, where extra = "{Stateless Peers}"
        and allow = "[Stateless Host]"]) auto

text \<open>
  A policy allows statelessly only outbound and only when it has no stateful rule, and allows
  statefully only when it has one; so the branch for a stateless inbound allowance is never taken.
\<close>

theorem policy_decision_mode:
  assumes "policy_api E pm_inv"
  shows "(policy_decision E (Rules_new E host peers allow block) pkt dir = Some AllowStateless \<longrightarrow>
      dir = Out \<and> \<not> list_ex is_stateful_rule (allow @ block)) \<and>
    (policy_decision E (Rules_new E host peers allow block) pkt dir = Some AllowStateful \<longrightarrow>
      list_ex is_stateful_rule (allow @ block)) \<and>
    has_stateful (Rules_new E host peers allow block) = list_ex is_stateful_rule (allow @ block)"
proof -
  have "has_stateful (Rules_new E host peers allow block) = list_ex is_stateful_rule (allow @ block)"
    by (simp add: has_stateful_def policy_mode_def)
  then show ?thesis
    using policy_api.decision_stateless[OF assms] policy_api.decision_stateful[OF assms] by metis
qed

theorem policy_decision_mode_witness:
  "has_stateful (Rules_new ref_policy 1 [] [Stateless Host] [Stateful In Peers Filter_default])"
  using policy_decision_mode[OF ref_pol.policy_api_axioms, of 1 "[]" "[Stateless Host]"
      "[Stateful In Peers Filter_default]"] by simp

text \<open>
  The reported rule count is, per direction, the number of distinct pairs of network and
  filter the policy names, however the rules repeat or contradict each other.
\<close>

theorem rule_count:
  assumes "policy_api E pm_inv"
  shows "Rules_len E (Rules_new E host peers allow block) =
    card (entry_key E ` set (policy_entries E host peers allow block In)) +
    card (entry_key E ` set (policy_entries E host peers allow block Out))"
  by (rule policy_api.policy_len[OF assms])

theorem rule_count_witness:
  "Rules_len ref_policy (Rules_new ref_policy 1 [] [Stateless Host, Stateless Host] [Stateless Host]) = 1"
proof -
  have "entry_key ref_policy ` set (policy_entries ref_policy 1 [] [Stateless Host, Stateless Host] [Stateless Host] In) = {}"
    "entry_key ref_policy ` set (policy_entries ref_policy 1 [] [Stateless Host, Stateless Host] [Stateless Host] Out)
      = {(Ipv4Net 1 32, Filter_default)}"
    by code_simp+
  then show ?thesis
    unfolding rule_count[OF ref_pol.policy_api_axioms] by simp
qed

end
