(* ===== verification/Flows.thy ===== *)
theory Flows
  imports Wire
begin

text \<open>
  The stateful flow cache (\<open>lib/proxy/flows/\<close>): a bounded table of exact-tuple permissions for
  return traffic. Operations that mutate the table return it. The clock is the \<open>coarsetime\<close>
  crate: an \<open>Instant\<close> is a number of nanoseconds, and a definition that reads the clock takes
  the reading as its argument \<open>now\<close>.
\<close>

section \<open>Types\<close>

type_synonym Instant = nat
type_synonym Duration = nat

definition from_secs :: "nat \<Rightarrow> Duration" where
  "from_secs n = n * 1000000000"

definition MAX_FLOWS :: nat where
  "MAX_FLOWS = 32768"

definition SWEEP_INTERVAL :: Duration where
  "SWEEP_INTERVAL = from_secs 1"

definition SYN_TIMEOUT :: Duration where
  "SYN_TIMEOUT = from_secs 60"

definition TCP_TIMEOUT :: Duration where
  "TCP_TIMEOUT = from_secs (5 * 60)"

definition UDP_TIMEOUT :: Duration where
  "UDP_TIMEOUT = from_secs 30"

definition ECHO_TIMEOUT :: Duration where
  "ECHO_TIMEOUT = from_secs 30"

datatype FlowDirection = FromHost | FromVm

datatype FlowKey =
    IcmpEchoKey ipv4addr ipv4addr u16 FlowDirection
  | TcpKey ipv4addr u16 ipv4addr u16
  | UdpKey ipv4addr u16 ipv4addr u16

record Flow =
  initiating_direction :: FlowDirection
  expires_at :: Instant

record PendingFlow =
  pending_key :: FlowKey
  pending_flow :: Flow

datatype FlowMatch = Allowed | Candidate PendingFlow | Denied | Untracked

record FlowTable =
  flows :: "(FlowKey, Flow) hashmap"
  next_sweep :: Instant

section \<open>Directions and keys\<close>

fun host_vm_pair :: "FlowDirection \<Rightarrow> 'a \<Rightarrow> 'a \<Rightarrow> 'a \<times> 'a" where
  "host_vm_pair FromHost src dst = (src, dst)"
| "host_vm_pair FromVm src dst = (dst, src)"

fun opposite :: "FlowDirection \<Rightarrow> FlowDirection" where
  "opposite FromHost = FromVm"
| "opposite FromVm = FromHost"

definition FlowKey_tcp :: "FlowDirection \<Rightarrow> ipv4addr \<times> u16 \<Rightarrow> ipv4addr \<times> u16 \<Rightarrow> FlowKey" where
  "FlowKey_tcp direction src dst =
     (let ((host_addr, host_port), (vm_addr, vm_port)) = host_vm_pair direction src dst
      in TcpKey host_addr host_port vm_addr vm_port)"

definition FlowKey_udp :: "FlowDirection \<Rightarrow> ipv4addr \<times> u16 \<Rightarrow> ipv4addr \<times> u16 \<Rightarrow> FlowKey" where
  "FlowKey_udp direction src dst =
     (let ((host_addr, host_port), (vm_addr, vm_port)) = host_vm_pair direction src dst
      in UdpKey host_addr host_port vm_addr vm_port)"

definition FlowKey_icmp_echo ::
  "ipv4addr \<Rightarrow> ipv4addr \<Rightarrow> FlowDirection \<Rightarrow> FlowDirection \<Rightarrow> u16 \<Rightarrow> FlowKey" where
  "FlowKey_icmp_echo src dst direction initiating ident =
     (let (host_addr, vm_addr) = host_vm_pair direction src dst
      in IcmpEchoKey host_addr vm_addr ident initiating)"

definition candidate :: "FlowKey \<Rightarrow> FlowDirection \<Rightarrow> Instant \<Rightarrow> Duration \<Rightarrow> FlowMatch" where
  "candidate key initiating now timeout =
     Candidate \<lparr>pending_key = key,
       pending_flow = \<lparr>initiating_direction = initiating, expires_at = now + timeout\<rparr>\<rparr>"

section \<open>The table\<close>

definition FlowTable_new :: "Instant \<Rightarrow> FlowTable" where
  "FlowTable_new now = \<lparr>flows = [], next_sweep = now + SWEEP_INTERVAL\<rparr>"

definition sweep_if_due :: "FlowTable \<Rightarrow> Instant \<Rightarrow> FlowTable" where
  "sweep_if_due table now =
     (if now < next_sweep table then table
      else table\<lparr>flows := hm_retain (\<lambda>_ flow. now < expires_at flow) (flows table),
                 next_sweep := now + SWEEP_INTERVAL\<rparr>)"

definition match_existing_flow ::
  "FlowTable \<Rightarrow> FlowKey \<Rightarrow> FlowDirection \<Rightarrow> Instant \<Rightarrow> Duration \<Rightarrow> FlowMatch option" where
  "match_existing_flow table key direction now timeout =
     (case hm_get (flows table) key of
        None \<Rightarrow> None
      | Some existing \<Rightarrow>
          if expires_at existing \<le> now then None
          else if direction = initiating_direction existing
          then Some (candidate key (initiating_direction existing) now timeout)
          else Some Allowed)"

definition is_initial_syn :: "TcpHeader \<Rightarrow> bool" where
  "is_initial_syn tcp \<longleftrightarrow> tcp_syn tcp \<and> \<not> tcp_ack tcp \<and> \<not> tcp_fin tcp \<and> \<not> tcp_rst tcp"

definition inspect_tcp :: "FlowTable \<Rightarrow> Ipv4Packet \<Rightarrow> FlowDirection \<Rightarrow> Instant \<Rightarrow> FlowMatch" where
  "inspect_tcp table pkt direction now =
     (case tcp_header pkt of
        None \<Rightarrow> Denied
      | Some tcp \<Rightarrow>
          if tcp_src_port tcp = 0 \<or> tcp_dst_port tcp = 0 then Denied
          else
            let key = FlowKey_tcp direction (src_addr pkt, tcp_src_port tcp)
                        (dst_addr pkt, tcp_dst_port tcp)
            in if is_initial_syn tcp then candidate key direction now SYN_TIMEOUT
               else (case match_existing_flow table key direction now TCP_TIMEOUT of
                       Some matched \<Rightarrow> matched
                     | None \<Rightarrow> Untracked))"

definition inspect_udp :: "FlowTable \<Rightarrow> Ipv4Packet \<Rightarrow> FlowDirection \<Rightarrow> Instant \<Rightarrow> FlowMatch" where
  "inspect_udp table pkt direction now =
     (let udp = udp_header pkt
      in if \<not> udp_checked udp then Denied
         else if udp_dst_port udp = 0 then Denied
         else if udp_src_port udp = 0 then Denied
         else
           let key = FlowKey_udp direction (src_addr pkt, udp_src_port udp)
                       (dst_addr pkt, udp_dst_port udp)
           in (case match_existing_flow table key direction now UDP_TIMEOUT of
                 Some matched \<Rightarrow> matched
               | None \<Rightarrow> candidate key direction now UDP_TIMEOUT))"

definition inspect_echo ::
  "FlowTable \<Rightarrow> Ipv4Packet \<Rightarrow> FlowDirection \<Rightarrow> u16 \<Rightarrow> bool \<Rightarrow> Instant \<Rightarrow> FlowMatch" where
  "inspect_echo table pkt direction ident is_request now =
     (let initiating = (if is_request then direction else opposite direction);
          key = FlowKey_icmp_echo (src_addr pkt) (dst_addr pkt) direction initiating ident
      in (case match_existing_flow table key direction now ECHO_TIMEOUT of
            Some matched \<Rightarrow> matched
          | None \<Rightarrow> if is_request then candidate key initiating now ECHO_TIMEOUT else Untracked))"

definition inspect_icmp :: "FlowTable \<Rightarrow> Ipv4Packet \<Rightarrow> FlowDirection \<Rightarrow> Instant \<Rightarrow> FlowMatch" where
  "inspect_icmp table pkt direction now =
     (case icmp_header pkt of
        None \<Rightarrow> Denied
      | Some icmp \<Rightarrow>
          if \<not> icmp_checksum_ok icmp then Denied
          else (case icmp_msg_type icmp of
                  EchoRequest \<Rightarrow>
                    if icmp_msg_code icmp = 0
                    then inspect_echo table pkt direction (icmp_echo_ident icmp) True now
                    else Untracked
                | EchoReply \<Rightarrow>
                    if icmp_msg_code icmp = 0
                    then inspect_echo table pkt direction (icmp_echo_ident icmp) False now
                    else Untracked
                | IcmpOther _ \<Rightarrow> Untracked))"

definition inspect_at ::
  "FlowTable \<Rightarrow> Ipv4Packet \<Rightarrow> FlowDirection \<Rightarrow> Instant \<Rightarrow> FlowMatch \<times> FlowTable" where
  "inspect_at table pkt direction now =
     (let table = sweep_if_due table now
      in (if more_frags pkt \<or> frag_offset pkt \<noteq> 0 then Untracked
          else (case next_header pkt of
                  IpIcmp \<Rightarrow> inspect_icmp table pkt direction now
                | IpTcp \<Rightarrow> inspect_tcp table pkt direction now
                | IpUdp \<Rightarrow> inspect_udp table pkt direction now
                | IpOther _ \<Rightarrow> Untracked),
          table))"

definition commit :: "FlowTable \<Rightarrow> PendingFlow \<Rightarrow> bool \<times> FlowTable" where
  "commit table pending =
     (if \<not> hm_contains_key (flows table) (pending_key pending) \<and> MAX_FLOWS \<le> hm_len (flows table)
      then (False, table)
      else (True, table\<lparr>flows := hm_insert (pending_key pending) (pending_flow pending) (flows table)\<rparr>))"

section \<open>Invariant and specification\<close>

text \<open>
  The table holds at most \<open>MAX_FLOWS\<close> entries, no tuple twice, and an echo entry is indexed under
  the direction that initiated it.
\<close>

fun key_direction_ok :: "FlowKey \<Rightarrow> FlowDirection \<Rightarrow> bool" where
  "key_direction_ok (IcmpEchoKey _ _ _ d) d' = (d = d')"
| "key_direction_ok (TcpKey _ _ _ _) _ = True"
| "key_direction_ok (UdpKey _ _ _ _) _ = True"

definition flow_table_wf :: "FlowTable \<Rightarrow> bool" where
  "flow_table_wf table \<longleftrightarrow>
     hm_wf (flows table) \<and> hm_len (flows table) \<le> MAX_FLOWS \<and>
     (\<forall>(k, f) \<in> set (flows table). key_direction_ok k (initiating_direction f))"

definition pending_wf :: "PendingFlow \<Rightarrow> bool" where
  "pending_wf p \<longleftrightarrow> key_direction_ok (pending_key p) (initiating_direction (pending_flow p))"

text \<open>An entry counts at a time \<open>now\<close> only while it has not expired.\<close>

definition live_flow :: "FlowTable \<Rightarrow> Instant \<Rightarrow> FlowKey \<Rightarrow> Flow option" where
  "live_flow table now key =
     (case hm_get (flows table) key of
        None \<Rightarrow> None | Some f \<Rightarrow> if now < expires_at f then Some f else None)"

text \<open>
  The tuple a packet belongs to, when it has one: the packet is not a fragment, its transport
  header is complete and valid, and (for ICMP) it is an echo message.
\<close>

definition packet_key :: "Ipv4Packet \<Rightarrow> FlowDirection \<Rightarrow> FlowKey option" where
  "packet_key pkt d =
     (if is_fragment pkt then None
      else (case next_header pkt of
        IpTcp \<Rightarrow>
          (case tcp_header pkt of
             None \<Rightarrow> None
           | Some tcp \<Rightarrow>
               if tcp_src_port tcp = 0 \<or> tcp_dst_port tcp = 0 then None
               else Some (FlowKey_tcp d (src_addr pkt, tcp_src_port tcp) (dst_addr pkt, tcp_dst_port tcp)))
      | IpUdp \<Rightarrow>
          (let udp = udp_header pkt
           in if \<not> udp_checked udp \<or> udp_src_port udp = 0 \<or> udp_dst_port udp = 0 then None
              else Some (FlowKey_udp d (src_addr pkt, udp_src_port udp) (dst_addr pkt, udp_dst_port udp)))
      | IpIcmp \<Rightarrow>
          (case icmp_header pkt of
             None \<Rightarrow> None
           | Some icmp \<Rightarrow>
               if icmp_checksum_ok icmp \<and> icmp_msg_code icmp = 0
               then (case icmp_msg_type icmp of
                       EchoRequest \<Rightarrow>
                         Some (FlowKey_icmp_echo (src_addr pkt) (dst_addr pkt) d d (icmp_echo_ident icmp))
                     | EchoReply \<Rightarrow>
                         Some (FlowKey_icmp_echo (src_addr pkt) (dst_addr pkt) d (opposite d)
                           (icmp_echo_ident icmp))
                     | IcmpOther _ \<Rightarrow> None)
               else None)
      | IpOther _ \<Rightarrow> None))"

definition initial_syn :: "Ipv4Packet \<Rightarrow> bool" where
  "initial_syn pkt \<longleftrightarrow>
     next_header pkt = IpTcp \<and> (case tcp_header pkt of None \<Rightarrow> False | Some tcp \<Rightarrow> is_initial_syn tcp)"

definition flow_timeout :: "Ipv4Packet \<Rightarrow> Duration" where
  "flow_timeout pkt =
     (case next_header pkt of
        IpTcp \<Rightarrow> if initial_syn pkt then SYN_TIMEOUT else TCP_TIMEOUT
      | IpUdp \<Rightarrow> UDP_TIMEOUT
      | _ \<Rightarrow> ECHO_TIMEOUT)"

text \<open>\<open>q\<close> answers \<open>p\<close>: same tuple with source and destination exchanged.\<close>

definition is_reply :: "Ipv4Packet \<Rightarrow> Ipv4Packet \<Rightarrow> bool" where
  "is_reply p q \<longleftrightarrow>
     \<not> is_fragment q \<and> next_header q = next_header p \<and>
     src_addr q = dst_addr p \<and> dst_addr q = src_addr p \<and>
     (case next_header p of
        IpTcp \<Rightarrow>
          (case (tcp_header p, tcp_header q) of
             (Some a, Some b) \<Rightarrow>
               tcp_src_port b = tcp_dst_port a \<and> tcp_dst_port b = tcp_src_port a \<and> \<not> is_initial_syn b
           | _ \<Rightarrow> False)
      | IpUdp \<Rightarrow>
          udp_checked (udp_header q) \<and>
          udp_src_port (udp_header q) = udp_dst_port (udp_header p) \<and>
          udp_dst_port (udp_header q) = udp_src_port (udp_header p)
      | IpIcmp \<Rightarrow>
          (case (icmp_header p, icmp_header q) of
             (Some a, Some b) \<Rightarrow>
               icmp_msg_type a = EchoRequest \<and> icmp_msg_type b = EchoReply \<and>
               icmp_checksum_ok b \<and> icmp_msg_code b = 0 \<and> icmp_echo_ident b = icmp_echo_ident a
           | _ \<Rightarrow> False)
      | IpOther _ \<Rightarrow> False)"

text \<open>Return traffic: the tuple has a live entry initiated in the other direction.\<close>

definition return_traffic :: "FlowTable \<Rightarrow> Ipv4Packet \<Rightarrow> FlowDirection \<Rightarrow> Instant \<Rightarrow> bool" where
  "return_traffic table pkt d now \<longleftrightarrow>
     \<not> initial_syn pkt \<and>
     (case packet_key pkt d of
        None \<Rightarrow> False
      | Some k \<Rightarrow>
          (case live_flow table now k of None \<Rightarrow> False | Some f \<Rightarrow> initiating_direction f \<noteq> d))"

text \<open>What a candidate proposes: the packet's tuple, initiated in its direction, from now on.\<close>

definition proposes :: "PendingFlow \<Rightarrow> Ipv4Packet \<Rightarrow> FlowDirection \<Rightarrow> Instant \<Rightarrow> bool" where
  "proposes p pkt d now \<longleftrightarrow>
     packet_key pkt d = Some (pending_key p) \<and> initiating_direction (pending_flow p) = d \<and>
     expires_at (pending_flow p) = now + flow_timeout pkt \<and> pending_wf p"

text \<open>
  The whole answer of an inspection, over a plain map of permissions: no sweeping, no bound, an
  entry counts while it has not expired.
\<close>

definition spec_live :: "(FlowKey \<rightharpoonup> Flow) \<Rightarrow> Instant \<Rightarrow> FlowKey \<Rightarrow> Flow option" where
  "spec_live perms now key =
     (case perms key of None \<Rightarrow> None | Some f \<Rightarrow> if now < expires_at f then Some f else None)"

definition malformed :: "Ipv4Packet \<Rightarrow> bool" where
  "malformed pkt \<longleftrightarrow> \<not> is_fragment pkt \<and>
     (case next_header pkt of
        IpTcp \<Rightarrow> (case tcp_header pkt of
                    None \<Rightarrow> True | Some tcp \<Rightarrow> tcp_src_port tcp = 0 \<or> tcp_dst_port tcp = 0)
      | IpUdp \<Rightarrow> \<not> udp_checked (udp_header pkt) \<or> udp_src_port (udp_header pkt) = 0 \<or>
                 udp_dst_port (udp_header pkt) = 0
      | IpIcmp \<Rightarrow> (case icmp_header pkt of None \<Rightarrow> True | Some icmp \<Rightarrow> \<not> icmp_checksum_ok icmp)
      | IpOther _ \<Rightarrow> False)"

definition opens_flow :: "Ipv4Packet \<Rightarrow> bool" where
  "opens_flow pkt \<longleftrightarrow>
     initial_syn pkt \<or> next_header pkt = IpUdp \<or>
     next_header pkt = IpIcmp \<and>
       (case icmp_header pkt of None \<Rightarrow> False | Some icmp \<Rightarrow> icmp_msg_type icmp = EchoRequest)"

definition spec_inspect ::
  "(FlowKey \<rightharpoonup> Flow) \<Rightarrow> Ipv4Packet \<Rightarrow> FlowDirection \<Rightarrow> Instant \<Rightarrow> FlowMatch" where
  "spec_inspect perms pkt d now =
     (case packet_key pkt d of
        None \<Rightarrow> if malformed pkt then Denied else Untracked
      | Some key \<Rightarrow>
          let proposal = candidate key d now (flow_timeout pkt)
          in if initial_syn pkt then proposal
             else (case spec_live perms now key of
                     Some f \<Rightarrow> if initiating_direction f = d then proposal else Allowed
                   | None \<Rightarrow> if opens_flow pkt then proposal else Untracked))"

text \<open>A history of the cache: inspections with their time, and commits, with their outcomes.\<close>

datatype flow_event =
    EvInspect Ipv4Packet FlowDirection Instant
  | EvCommit PendingFlow

datatype flow_outcome = Answer FlowMatch | Committed bool

fun run_flow_events ::
  "('t \<Rightarrow> Ipv4Packet \<Rightarrow> FlowDirection \<Rightarrow> Instant \<Rightarrow> FlowMatch \<times> 't) \<Rightarrow> ('t \<Rightarrow> PendingFlow \<Rightarrow> bool \<times> 't) \<Rightarrow>
   't \<Rightarrow> flow_event list \<Rightarrow> flow_outcome list" where
  "run_flow_events ins com t [] = []"
| "run_flow_events ins com t (EvInspect pkt d now # es) =
     (let (m, t') = ins t pkt d now in Answer m # run_flow_events ins com t' es)"
| "run_flow_events ins com t (EvCommit p # es) =
     (let (b, t') = com t p in Committed b # run_flow_events ins com t' es)"

fun spec_replay :: "(FlowKey \<rightharpoonup> Flow) \<Rightarrow> flow_event list \<Rightarrow> flow_outcome list \<Rightarrow> bool" where
  "spec_replay perms [] [] = True"
| "spec_replay perms (EvInspect pkt d now # es) (Answer m # os) =
     (m = spec_inspect perms pkt d now \<and> spec_replay perms es os)"
| "spec_replay perms (EvCommit p # es) (Committed b # os) =
     spec_replay (if b then perms(pending_key p \<mapsto> pending_flow p) else perms) es os"
| "spec_replay perms _ _ = False"

text \<open>The clock does not go back, and committed entries are proposals.\<close>

fun history_ok :: "Instant \<Rightarrow> flow_event list \<Rightarrow> bool" where
  "history_ok now [] = True"
| "history_ok now (EvInspect pkt d now' # es) = (now \<le> now' \<and> history_ok now' es)"
| "history_ok now (EvCommit p # es) = (pending_wf p \<and> history_ok now es)"

definition flow_sim :: "FlowTable \<Rightarrow> (FlowKey \<rightharpoonup> Flow) \<Rightarrow> Instant \<Rightarrow> bool" where
  "flow_sim table perms now \<longleftrightarrow>
     flow_table_wf table \<and> (\<forall>t \<ge> now. \<forall>k. live_flow table t k = spec_live perms t k)"

text \<open>A UDP datagram, for concrete instances.\<close>

definition sample_udp :: "ipv4addr \<Rightarrow> u16 \<Rightarrow> ipv4addr \<Rightarrow> u16 \<Rightarrow> Ipv4Packet" where
  "sample_udp src sport dst dport =
     \<lparr>src_addr = src, dst_addr = dst, next_header = IpUdp, header_len = 20, more_frags = False,
      frag_offset = 0, ip_checksum_ok = True, payload_len = 8, tcp_header = None,
      udp_header = \<lparr>udp_checked = True, udp_src_port = sport, udp_dst_port = dport, udp_len = 8,
        udp_checksum_ok = True, udp_repr_ok = True, udp_payload = []\<rparr>,
      icmp_header = None\<rparr>"

section \<open>Lemmas: directions and keys\<close>

lemma opposite_opposite [simp]: "opposite (opposite d) = d"
  by (cases d) simp_all

lemma opposite_neq [simp]: "opposite d \<noteq> d" "d \<noteq> opposite d"
  by (cases d; simp)+

lemma neq_opposite: "d \<noteq> d' \<longleftrightarrow> d' = opposite d"
  by (cases d; cases d') simp_all

lemma host_vm_pair_swap: "host_vm_pair (opposite d) dst src = host_vm_pair d src dst"
  by (cases d) simp_all

lemma key_swap:
  "FlowKey_tcp (opposite d) b a = FlowKey_tcp d a b"
  "FlowKey_udp (opposite d) b a = FlowKey_udp d a b"
  "FlowKey_icmp_echo dst src (opposite d) i n = FlowKey_icmp_echo src dst d i n"
  by (simp_all add: FlowKey_tcp_def FlowKey_udp_def FlowKey_icmp_echo_def host_vm_pair_swap)

lemma key_direction_ok_keys [simp]:
  "key_direction_ok (FlowKey_tcp d a b) d'" "key_direction_ok (FlowKey_udp d a b) d'"
  "key_direction_ok (FlowKey_icmp_echo s t d i n) d' = (i = d')"
  by (simp_all add: FlowKey_tcp_def FlowKey_udp_def FlowKey_icmp_echo_def split: prod.splits)

lemma reply_key:
  "is_reply p q \<Longrightarrow> packet_key p d = Some k \<Longrightarrow> packet_key q (opposite d) = Some k"
  by (auto simp: is_reply_def packet_key_def key_swap Let_def
      split: if_splits IpProtocol.splits option.splits)

lemma reply_not_syn: "is_reply p q \<Longrightarrow> \<not> initial_syn q"
  by (auto simp: is_reply_def initial_syn_def split: option.splits)

section \<open>Lemmas: the sweep\<close>

lemma sweep_wf: "flow_table_wf table \<Longrightarrow> flow_table_wf (sweep_if_due table now)"
  using hm_len_retain[of "\<lambda>_ f. now < expires_at f" "flows table"]
  by (auto simp: flow_table_wf_def sweep_if_due_def)

lemma live_sweep [simp]:
  "flow_table_wf table \<Longrightarrow> live_flow (sweep_if_due table now) now key = live_flow table now key"
  by (auto simp: live_flow_def sweep_if_due_def flow_table_wf_def hm_get_retain split: option.splits)

lemma sweep_get:
  "flow_table_wf table \<Longrightarrow> hm_get (flows (sweep_if_due table now)) key = Some f \<Longrightarrow>
   hm_get (flows table) key = Some f"
  by (auto simp: sweep_if_due_def flow_table_wf_def hm_get_retain split: option.splits if_splits)

lemma inspect_at_table [simp]: "snd (inspect_at table pkt d now) = sweep_if_due table now"
  by (simp add: inspect_at_def Let_def)

lemma match_existing_flow_live:
  "match_existing_flow table key d now timeout =
     (case live_flow table now key of
        None \<Rightarrow> None
      | Some f \<Rightarrow> if d = initiating_direction f then Some (candidate key d now timeout) else Some Allowed)"
  by (auto simp: match_existing_flow_def live_flow_def split: option.splits)

section \<open>Lemmas: what inspection answers\<close>

lemma candidate_neq [simp]: "candidate k d n t \<noteq> Allowed" "candidate k d n t \<noteq> Denied"
  "candidate k d n t \<noteq> Untracked"
  by (simp_all add: candidate_def)

lemma candidate_eq: "candidate k d n t = Candidate p \<longleftrightarrow>
    p = \<lparr>pending_key = k, pending_flow = \<lparr>initiating_direction = d, expires_at = n + t\<rparr>\<rparr>"
  by (auto simp: candidate_def)

lemma live_flow_direction:
  "flow_table_wf table \<Longrightarrow> live_flow table now k = Some f \<Longrightarrow> key_direction_ok k (initiating_direction f)"
  by (auto simp: live_flow_def flow_table_wf_def hm_get_Some_in split: option.splits if_splits)

lemma echo_live_direction:
  "flow_table_wf table \<Longrightarrow> live_flow table now (FlowKey_icmp_echo s t d i n) = Some f \<Longrightarrow>
   initiating_direction f = i"
  using live_flow_direction by fastforce

section \<open>Lemmas: committing\<close>

lemma commit_wf [wf_intros]:
  assumes "flow_table_wf table" "pending_wf p"
  shows "flow_table_wf (snd (commit table p))"
proof (cases "fst (commit table p)")
  case False
  with assms show ?thesis by (simp add: commit_def split: if_splits)
next
  case True
  let ?m = "hm_insert (pending_key p) (pending_flow p) (flows table)"
  have wf: "hm_wf ?m" using assms by (simp add: flow_table_wf_def)
  have "hm_len ?m \<le> MAX_FLOWS"
    using True assms by (auto simp: commit_def hm_len_insert flow_table_wf_def split: if_splits)
  moreover have "key_direction_ok k (initiating_direction f)" if "(k, f) \<in> set ?m" for k f
    using in_hm_insert[OF that] assms by (auto simp: pending_wf_def flow_table_wf_def)
  ultimately show ?thesis
    using True wf by (auto simp: commit_def flow_table_wf_def split: if_splits)
qed

lemma inspect_wf [wf_intros]: "flow_table_wf table \<Longrightarrow> flow_table_wf (snd (inspect_at table pkt d now))"
  by (simp add: sweep_wf)

lemma FlowTable_new_wf [wf_intros]: "flow_table_wf (FlowTable_new now)"
  by (simp add: FlowTable_new_def flow_table_wf_def hm_len_def)

lemma commit_get:
  "fst (commit table p) \<Longrightarrow> hm_get (flows (snd (commit table p))) k =
     (if k = pending_key p then Some (pending_flow p) else hm_get (flows table) k)"
  by (auto simp: commit_def split: if_splits)

lemma commit_fails: "\<not> fst (commit table p) \<Longrightarrow> snd (commit table p) = table"
  by (simp add: commit_def split: if_splits)

lemma commit_succeeds_iff:
  "fst (commit table p) \<longleftrightarrow> hm_contains_key (flows table) (pending_key p) \<or> hm_len (flows table) < MAX_FLOWS"
  by (auto simp: commit_def)

section \<open>The flow cache as an interface\<close>

text \<open>
  What the proxy relies on: answers are those of the plain map of permissions, as long as the
  clock does not go back, and a commit either fails without effect or sets one permission.
\<close>

locale flow_cache =
  fixes sim :: "'t \<Rightarrow> (FlowKey \<rightharpoonup> Flow) \<Rightarrow> Instant \<Rightarrow> bool"
    and fresh :: "Instant \<Rightarrow> 't"
    and ins :: "'t \<Rightarrow> Ipv4Packet \<Rightarrow> FlowDirection \<Rightarrow> Instant \<Rightarrow> FlowMatch \<times> 't"
    and com :: "'t \<Rightarrow> PendingFlow \<Rightarrow> bool \<times> 't"
  assumes fresh_sim: "sim (fresh now) Map.empty now"
    and ins_answer: "sim t perms now \<Longrightarrow> now \<le> now' \<Longrightarrow> fst (ins t pkt d now') = spec_inspect perms pkt d now'"
    and ins_sim: "sim t perms now \<Longrightarrow> now \<le> now' \<Longrightarrow> sim (snd (ins t pkt d now')) perms now'"
    and com_sim: "sim t perms now \<Longrightarrow> pending_wf p \<Longrightarrow>
      sim (snd (com t p)) (if fst (com t p) then perms(pending_key p \<mapsto> pending_flow p) else perms) now"
begin

lemma run_replay:
  "sim t perms now \<Longrightarrow> history_ok now es \<Longrightarrow> spec_replay perms es (run_flow_events ins com t es)"
proof (induction now es arbitrary: t perms rule: history_ok.induct)
  case (2 now pkt d now' es)
  then show ?case
    using ins_answer[of t perms now now' pkt d] ins_sim[of t perms now now' pkt d]
    by (simp add: case_prod_unfold Let_def)
next
  case (3 now p es)
  then show ?case
    using com_sim[of t perms now p] by (simp add: case_prod_unfold Let_def)
qed simp

lemma fresh_replay: "history_ok now es \<Longrightarrow> spec_replay Map.empty es (run_flow_events ins com (fresh now) es)"
  by (rule run_replay[OF fresh_sim])

end

section \<open>The table implements the interface\<close>

lemma inspect_tcp_spec:
  assumes "next_header pkt = IpTcp" "\<not> is_fragment pkt"
    and "\<And>k. live_flow table now k = spec_live perms now k"
  shows "inspect_tcp table pkt d now = spec_inspect perms pkt d now"
  using assms(1,2)
  by (cases "tcp_header pkt")
    (auto simp: inspect_tcp_def spec_inspect_def packet_key_def malformed_def initial_syn_def
      flow_timeout_def opens_flow_def Let_def match_existing_flow_live assms(3) split: option.splits)

lemma inspect_udp_spec:
  assumes "next_header pkt = IpUdp" "\<not> is_fragment pkt"
    and "\<And>k. live_flow table now k = spec_live perms now k"
  shows "inspect_udp table pkt d now = spec_inspect perms pkt d now"
  using assms(1,2)
  by (auto simp: inspect_udp_def spec_inspect_def packet_key_def malformed_def initial_syn_def
      flow_timeout_def opens_flow_def Let_def match_existing_flow_live assms(3) split: option.splits)

lemma inspect_icmp_spec:
  assumes "next_header pkt = IpIcmp" "\<not> is_fragment pkt" and wf: "flow_table_wf table"
    and live: "\<And>k. live_flow table now k = spec_live perms now k"
  shows "inspect_icmp table pkt d now = spec_inspect perms pkt d now"
proof -
  have echo: "spec_live perms now (FlowKey_icmp_echo s t d' i n) = Some f \<Longrightarrow> initiating_direction f = i"
    for s t d' i n f using echo_live_direction[OF wf, of now] live by simp
  show ?thesis
    using assms(1,2)
    by (cases "icmp_header pkt")
      (auto simp: inspect_icmp_def inspect_echo_def spec_inspect_def packet_key_def malformed_def
        initial_syn_def flow_timeout_def opens_flow_def Let_def match_existing_flow_live live
        split: option.splits Icmpv4Message.splits dest: echo)
qed

lemma inspect_spec:
  assumes sim: "flow_sim table perms now" and "now \<le> now'"
  shows "fst (inspect_at table pkt d now') = spec_inspect perms pkt d now'"
proof -
  let ?t = "sweep_if_due table now'"
  have wf: "flow_table_wf ?t" using sim by (simp add: flow_sim_def sweep_wf)
  have live: "live_flow ?t now' k = spec_live perms now' k" for k
    using assms by (simp add: flow_sim_def)
  show ?thesis
  proof (cases "is_fragment pkt")
    case True
    then show ?thesis
      by (simp add: inspect_at_def spec_inspect_def packet_key_def malformed_def is_fragment_def Let_def)
  next
    case False
    then show ?thesis
      using inspect_tcp_spec[OF _ _ live, of pkt] inspect_udp_spec[OF _ _ live, of pkt]
        inspect_icmp_spec[OF _ _ wf live, of pkt]
      by (cases "next_header pkt")
        (simp_all add: inspect_at_def spec_inspect_def packet_key_def malformed_def is_fragment_def Let_def)
  qed
qed

lemma sweep_sim:
  assumes "flow_sim table perms now" "now \<le> now'"
  shows "flow_sim (sweep_if_due table now') perms now'"
proof -
  have wf: "flow_table_wf table" using assms by (simp add: flow_sim_def)
  have "live_flow (sweep_if_due table now') t k = live_flow table t k" if "now' \<le> t" for t k
    using wf that by (auto simp: live_flow_def sweep_if_due_def flow_table_wf_def hm_get_retain split: option.splits)
  then show ?thesis using assms by (simp add: flow_sim_def sweep_wf)
qed

lemma commit_sim:
  assumes "flow_sim table perms now" "pending_wf p"
  shows "flow_sim (snd (commit table p))
    (if fst (commit table p) then perms(pending_key p \<mapsto> pending_flow p) else perms) now"
proof (cases "fst (commit table p)")
  case True
  have "live_flow (snd (commit table p)) t k = spec_live (perms(pending_key p \<mapsto> pending_flow p)) t k"
    if "now \<le> t" for t k
    using assms that commit_get[OF True] by (auto simp: flow_sim_def live_flow_def spec_live_def)
  moreover have "flow_table_wf (snd (commit table p))"
    using assms by (intro commit_wf) (simp_all add: flow_sim_def)
  ultimately show ?thesis using True by (simp add: flow_sim_def)
qed (simp add: assms commit_fails)

interpretation flow_table: flow_cache flow_sim FlowTable_new inspect_at commit
proof
  fix now
  show "flow_sim (FlowTable_new now) Map.empty now"
    by (simp add: flow_sim_def FlowTable_new_wf) (simp add: FlowTable_new_def live_flow_def spec_live_def)
qed (simp_all add: inspect_spec sweep_sim commit_sim)

lemma live_flow_spec: "live_flow table now k = spec_live (hm_get (flows table)) now k"
  by (simp add: live_flow_def spec_live_def)

lemma inspect_at_spec:
  "flow_table_wf table \<Longrightarrow> fst (inspect_at table pkt d now) = spec_inspect (hm_get (flows table)) pkt d now"
  by (rule inspect_spec[where now = now]) (simp_all add: flow_sim_def live_flow_spec)

lemma spec_inspect_allowed:
  "spec_inspect perms pkt d now = Allowed \<longleftrightarrow> \<not> initial_syn pkt \<and>
     (\<exists>k f. packet_key pkt d = Some k \<and> perms k = Some f \<and> now < expires_at f \<and> initiating_direction f \<noteq> d)"
  by (auto simp: spec_inspect_def spec_live_def Let_def split: option.splits if_splits)

lemma inspect_at_allowed:
  "flow_table_wf table \<Longrightarrow> fst (inspect_at table pkt d now) = Allowed \<longleftrightarrow> return_traffic table pkt d now"
  by (auto simp: inspect_at_spec spec_inspect_allowed return_traffic_def live_flow_def split: option.splits)

lemma packet_key_direction: "packet_key pkt d = Some k \<Longrightarrow> opens_flow pkt \<Longrightarrow> key_direction_ok k d"
  by (auto simp: packet_key_def opens_flow_def initial_syn_def Let_def
      split: if_splits IpProtocol.splits option.splits Icmpv4Message.splits)

lemma inspect_at_candidate:
  assumes wf: "flow_table_wf table" and c: "fst (inspect_at table pkt d now) = Candidate p"
  shows "proposes p pkt d now"
proof -
  from c obtain k where k: "packet_key pkt d = Some k"
    and p: "candidate k d now (flow_timeout pkt) = Candidate p"
    and src: "opens_flow pkt \<or> (\<exists>f. live_flow table now k = Some f \<and> initiating_direction f = d)"
    unfolding inspect_at_spec[OF wf] live_flow_spec
    by (auto simp: spec_inspect_def Let_def opens_flow_def split: option.splits if_splits)
  have "key_direction_ok k d"
    using src packet_key_direction[OF k] live_flow_direction[OF wf] by blast
  with k p show ?thesis by (auto simp: proposes_def candidate_eq pending_wf_def)
qed

lemma reply_after_commit:
  assumes wf: "flow_table_wf table" and c: "fst (inspect_at table p d t0) = Candidate pf"
    and ok: "fst (commit (snd (inspect_at table p d t0)) pf)"
    and reply: "is_reply p q" and time: "t1 < t0 + flow_timeout p"
  shows "fst (inspect_at (snd (commit (snd (inspect_at table p d t0)) pf)) q (opposite d) t1) = Allowed"
proof -
  note cand = inspect_at_candidate[OF wf c, unfolded proposes_def]
  let ?t = "snd (commit (snd (inspect_at table p d t0)) pf)"
  have wf': "flow_table_wf ?t"
    using wf cand by (intro commit_wf inspect_wf) simp_all
  have "live_flow ?t t1 (pending_key pf) = Some (pending_flow pf)"
    using cand time commit_get[OF ok] by (simp add: live_flow_def)
  moreover have "packet_key q (opposite d) = Some (pending_key pf)"
    using reply_key[OF reply] cand by blast
  moreover have "initiating_direction (pending_flow pf) \<noteq> opposite d"
    using cand by simp
  ultimately show ?thesis
    using reply_not_syn[OF reply] unfolding inspect_at_allowed[OF wf']
    by (simp add: return_traffic_def)
qed

section \<open>Lemmas: histories\<close>

lemma replay_length: "spec_replay perms es os \<Longrightarrow> length os = length es"
  by (induction perms es os rule: spec_replay.induct) simp_all

lemma replay_answer:
  assumes "spec_replay perms es os" "i < length es" "es ! i = EvInspect pkt d now" "os ! i = Answer m"
  shows "\<exists>perms'. m = spec_inspect perms' pkt d now \<and>
    (\<forall>k f. perms' k = Some f \<longrightarrow> perms k = Some f \<or>
      (\<exists>j < i. es ! j = EvCommit \<lparr>pending_key = k, pending_flow = f\<rparr> \<and> os ! j = Committed True))"
  using assms
proof (induction perms es os arbitrary: i rule: spec_replay.induct)
  case (2 perms pkt' d' now' es m' os)
  show ?case
  proof (cases i)
    case 0
    with 2 show ?thesis by auto
  next
    case (Suc n)
    with 2 obtain perms' where "m = spec_inspect perms' pkt d now"
      and src: "\<And>k f. perms' k = Some f \<Longrightarrow> perms k = Some f \<or>
        (\<exists>j < n. es ! j = EvCommit \<lparr>pending_key = k, pending_flow = f\<rparr> \<and> os ! j = Committed True)"
      by fastforce
    moreover have "perms k = Some f \<or> (\<exists>j < i. (EvInspect pkt' d' now' # es) ! j =
        EvCommit \<lparr>pending_key = k, pending_flow = f\<rparr> \<and> (Answer m' # os) ! j = Committed True)"
      if "perms' k = Some f" for k f
      using src[OF that] Suc by (metis Suc_less_eq nth_Cons_Suc)
    ultimately show ?thesis by blast
  qed
next
  case (3 perms p es b os)
  then obtain n where n: "i = Suc n" by (cases i) auto
  let ?p = "if b then perms(pending_key p \<mapsto> pending_flow p) else perms"
  from 3 n obtain perms' where "m = spec_inspect perms' pkt d now"
    and src: "\<And>k f. perms' k = Some f \<Longrightarrow> ?p k = Some f \<or>
      (\<exists>j < n. es ! j = EvCommit \<lparr>pending_key = k, pending_flow = f\<rparr> \<and> os ! j = Committed True)"
    by fastforce
  moreover have "perms k = Some f \<or> (\<exists>j < i. (EvCommit p # es) ! j =
      EvCommit \<lparr>pending_key = k, pending_flow = f\<rparr> \<and> (Committed b # os) ! j = Committed True)"
    if "perms' k = Some f" for k f
  proof -
    from src[OF that] consider "perms k = Some f" | "b" "pending_key p = k" "pending_flow p = f"
      | j where "j < n" "es ! j = EvCommit \<lparr>pending_key = k, pending_flow = f\<rparr>" "os ! j = Committed True"
      by (auto split: if_splits)
    then show ?thesis
    proof cases
      case 2
      then show ?thesis using n by (intro disjI2 exI[of _ 0]) auto
    next
      case 3
      then show ?thesis using n by (intro disjI2 exI[of _ "Suc j"]) auto
    qed simp
  qed
  ultimately show ?case by blast
qed simp_all

section \<open>Properties\<close>

text \<open>
  The flow table answers every packet as a plain map of permissions would: a malformed header
  is denied, a packet of a live flow that the other side initiated is allowed as return traffic,
  a packet that may open or refresh a flow proposes exactly its own tuple, anything else is
  untracked. Header validation, lookup and expiry of all three protocols are covered.
\<close>

theorem flow_inspect_complete:
  assumes "flow_table_wf table"
  shows "fst (inspect_at table pkt d now) = spec_inspect (hm_get (flows table)) pkt d now"
  using assms by (rule inspect_at_spec)

theorem flow_inspect_complete_witness:
  "fst (inspect_at (FlowTable_new 0) (sample_udp 1 1000 2 53) FromVm 5) =
     Candidate \<lparr>pending_key = UdpKey 2 53 1 1000,
       pending_flow = \<lparr>initiating_direction = FromVm, expires_at = 30000000005\<rparr>\<rparr>"
proof -
  have "flow_table_wf (FlowTable_new 0)" by (rule FlowTable_new_wf)
  moreover have "spec_inspect (hm_get (flows (FlowTable_new 0))) (sample_udp 1 1000 2 53) FromVm 5 =
      Candidate \<lparr>pending_key = UdpKey 2 53 1 1000,
        pending_flow = \<lparr>initiating_direction = FromVm, expires_at = 30000000005\<rparr>\<rparr>"
    by code_simp
  ultimately show ?thesis using flow_inspect_complete by metis
qed

text \<open>
  C5: sweeping is not observable. Over any history of inspections and commits with a clock that
  does not go back, the bounded and periodically swept table gives the same answers as a map of
  permissions from which nothing is ever removed.
\<close>

theorem flow_history_refines:
  assumes "history_ok t0 events"
  shows "spec_replay Map.empty events (run_flow_events inspect_at commit (FlowTable_new t0) events)"
  using assms by (rule flow_table.fresh_replay)

theorem flow_history_refines_witness:
  "spec_replay Map.empty
     [EvCommit \<lparr>pending_key = UdpKey 2 53 1 1000,
        pending_flow = \<lparr>initiating_direction = FromVm, expires_at = 7\<rparr>\<rparr>,
      EvInspect (sample_udp 2 53 1 1000) FromHost 5]
     [Committed True, Answer Allowed]"
proof -
  let ?es = "[EvCommit \<lparr>pending_key = UdpKey 2 53 1 1000,
        pending_flow = \<lparr>initiating_direction = FromVm, expires_at = 7\<rparr>\<rparr>,
      EvInspect (sample_udp 2 53 1 1000) FromHost 5]"
  have "run_flow_events inspect_at commit (FlowTable_new 0) ?es = [Committed True, Answer Allowed]"
    by code_simp
  then show ?thesis
    using flow_history_refines[of 0 ?es] by (simp add: pending_wf_def)
qed

text \<open>
  C7: no return traffic without permission. In any history from the empty table, a packet is
  allowed as return traffic only if an earlier commit succeeded for the same tuple, initiated by
  the other side, and that permission has not expired.
\<close>

theorem flow_allowed_sound:
  assumes "history_ok t0 events" and "i < length events" and "events ! i = EvInspect pkt d now"
    and "run_flow_events inspect_at commit (FlowTable_new t0) events ! i = Answer Allowed"
  shows "\<exists>j < i. \<exists>p. events ! j = EvCommit p \<and>
    run_flow_events inspect_at commit (FlowTable_new t0) events ! j = Committed True \<and>
    packet_key pkt d = Some (pending_key p) \<and>
    initiating_direction (pending_flow p) = opposite d \<and> now < expires_at (pending_flow p)"
proof -
  from replay_answer[OF flow_table.fresh_replay[OF assms(1)] assms(2-4)] obtain perms where
    a: "Allowed = spec_inspect perms pkt d now"
    and src: "\<forall>k f. perms k = Some f \<longrightarrow> Map.empty k = Some f \<or>
      (\<exists>j < i. events ! j = EvCommit \<lparr>pending_key = k, pending_flow = f\<rparr> \<and>
        run_flow_events inspect_at commit (FlowTable_new t0) events ! j = Committed True)"
    by blast
  from a obtain k f where "packet_key pkt d = Some k" "perms k = Some f" "now < expires_at f"
    "initiating_direction f = opposite d"
    unfolding eq_commute[of Allowed] spec_inspect_allowed by (metis neq_opposite opposite_opposite)
  moreover from this obtain j where "j < i" "events ! j = EvCommit \<lparr>pending_key = k, pending_flow = f\<rparr>"
    "run_flow_events inspect_at commit (FlowTable_new t0) events ! j = Committed True"
    using src by auto
  ultimately show ?thesis by force
qed

theorem flow_allowed_sound_witness:
  "\<exists>j < 1. \<exists>p. [EvCommit \<lparr>pending_key = UdpKey 2 53 1 1000,
        pending_flow = \<lparr>initiating_direction = FromVm, expires_at = 7\<rparr>\<rparr>,
      EvInspect (sample_udp 2 53 1 1000) FromHost 5] ! j = EvCommit p \<and>
    initiating_direction (pending_flow p) = FromVm \<and> 5 < expires_at (pending_flow p)"
proof -
  let ?es = "[EvCommit \<lparr>pending_key = UdpKey 2 53 1 1000,
        pending_flow = \<lparr>initiating_direction = FromVm, expires_at = 7\<rparr>\<rparr>,
      EvInspect (sample_udp 2 53 1 1000) FromHost 5]"
  have "run_flow_events inspect_at commit (FlowTable_new 0) ?es = [Committed True, Answer Allowed]"
    by code_simp
  then show ?thesis
    using flow_allowed_sound[of 0 ?es 1 "sample_udp 2 53 1 1000" FromHost 5]
    by (auto simp: pending_wf_def)
qed

text \<open>
  C38: the table never holds more than \<open>MAX_FLOWS\<close> entries. A new table is well formed, and
  inspecting a packet and committing what the inspection proposed keep it so.
\<close>

theorem flow_table_invariant:
  "flow_table_wf (FlowTable_new now) \<and>
   (flow_table_wf table \<longrightarrow> hm_len (flows table) \<le> MAX_FLOWS \<and>
     flow_table_wf (snd (inspect_at table pkt d now)) \<and>
     (\<forall>p. fst (inspect_at table pkt d now) = Candidate p \<longrightarrow>
        flow_table_wf (snd (commit (snd (inspect_at table pkt d now)) p))))"
proof -
  have "flow_table_wf (snd (commit (snd (inspect_at table pkt d now)) p))"
    if "flow_table_wf table" "fst (inspect_at table pkt d now) = Candidate p" for p
    using inspect_at_candidate[OF that] that(1) by (intro commit_wf inspect_wf) (simp_all add: proposes_def)
  moreover have "flow_table_wf table \<Longrightarrow> hm_len (flows table) \<le> MAX_FLOWS"
    by (simp add: flow_table_wf_def)
  ultimately show ?thesis using FlowTable_new_wf inspect_wf by blast
qed

theorem flow_table_invariant_witness:
  "flow_table_wf (snd (inspect_at (FlowTable_new 0) (sample_udp 1 1000 2 53) FromVm 5))"
  using flow_table_invariant[of 5 "FlowTable_new 0" "sample_udp 1 1000 2 53" FromVm]
    FlowTable_new_wf[of 0] by blast

text \<open>
  A commit succeeds exactly when the tuple is already tracked or the table is not full. When
  it fails it changes nothing; when it succeeds it sets the proposed entry and no other.
\<close>

theorem flow_commit_exact:
  "(fst (commit table p) \<longleftrightarrow> hm_contains_key (flows table) (pending_key p) \<or> hm_len (flows table) < MAX_FLOWS) \<and>
   (if fst (commit table p)
    then hm_get (flows (snd (commit table p))) = (hm_get (flows table))(pending_key p \<mapsto> pending_flow p) \<and>
      next_sweep (snd (commit table p)) = next_sweep table
    else snd (commit table p) = table)"
proof (cases "fst (commit table p)")
  case True
  have "hm_get (flows (snd (commit table p))) = (hm_get (flows table))(pending_key p \<mapsto> pending_flow p)"
    by (rule ext) (simp add: commit_get[OF True])
  moreover have "next_sweep (snd (commit table p)) = next_sweep table" by (simp add: commit_def)
  ultimately show ?thesis using True commit_succeeds_iff by simp
next
  case False
  then show ?thesis using commit_succeeds_iff commit_fails by metis
qed

text \<open>
  Once a packet's flow is committed, every reply to it (the same tuple with source and
  destination exchanged, from the other side) is allowed until the flow's timeout.
\<close>

theorem flow_reply_allowed:
  assumes "flow_table_wf table" and "fst (inspect_at table p d t0) = Candidate pf"
    and "fst (commit (snd (inspect_at table p d t0)) pf)"
    and "is_reply p q" and "t1 < t0 + flow_timeout p"
  shows "fst (inspect_at (snd (commit (snd (inspect_at table p d t0)) pf)) q (opposite d) t1) = Allowed"
  using assms by (rule reply_after_commit)

theorem flow_reply_allowed_witness:
  "fst (inspect_at (snd (commit (snd (inspect_at (FlowTable_new 0) (sample_udp 1 1000 2 53) FromVm 5))
      \<lparr>pending_key = UdpKey 2 53 1 1000,
       pending_flow = \<lparr>initiating_direction = FromVm, expires_at = 30000000005\<rparr>\<rparr>))
    (sample_udp 2 53 1 1000) FromHost 29000000000) = Allowed"
proof -
  have "is_reply (sample_udp 1 1000 2 53) (sample_udp 2 53 1 1000)"
    "29000000000 < 5 + flow_timeout (sample_udp 1 1000 2 53)"
    "fst (inspect_at (FlowTable_new 0) (sample_udp 1 1000 2 53) FromVm 5) = Candidate
      \<lparr>pending_key = UdpKey 2 53 1 1000,
       pending_flow = \<lparr>initiating_direction = FromVm, expires_at = 30000000005\<rparr>\<rparr>"
    "fst (commit (snd (inspect_at (FlowTable_new 0) (sample_udp 1 1000 2 53) FromVm 5))
      \<lparr>pending_key = UdpKey 2 53 1 1000,
       pending_flow = \<lparr>initiating_direction = FromVm, expires_at = 30000000005\<rparr>\<rparr>)"
    by code_simp+
  then show ?thesis
    using flow_reply_allowed[OF FlowTable_new_wf] by fastforce
qed

end
