(* ===== verification/Dhcp_Server.thy ===== *)
theory Dhcp_Server
  imports Wire
begin

text \<open>
  The DHCP server for one VM (\<open>lib/dhcp_server/mod.rs\<close>). The message type, its codec and its
  setters belong to the \<open>dhcproto\<close> crate and the serialization of headers to \<open>smoltcp\<close>, so they
  are fields of a parameter record. The record \<open>Message\<close> holds what the accessors of a message
  return; the locale \<open>dhcp_api\<close> says what each setter does to them. Domain names are opaque
  (type \<open>'n\<close>).
\<close>

section \<open>Messages\<close>

datatype Opcode = BootRequest | BootReply | OpcodeUnknown u8

datatype HType = Eth | HTypeOther u8

datatype MessageType =
  Discover | Offer | Request | Decline | Ack | Nak | Release | Inform | MessageTypeOther u8

datatype OptionCode =
    MessageTypeCode | ServerIdentifierCode | RequestedIpAddressCode | ClientIdentifierCode
  | SubnetMaskCode | RouterCode | DomainNameServerCode | AddressLeaseTimeCode | DomainSearchCode
  | OtherCode u8

datatype 'n DhcpOption =
    MessageTypeOption MessageType
  | ServerIdentifier ipv4addr
  | RequestedIpAddress ipv4addr
  | ClientIdentifier bytes
  | SubnetMask ipv4addr
  | Router "ipv4addr list"
  | DomainNameServer "ipv4addr list"
  | AddressLeaseTime u32
  | DomainSearch "'n list"
  | OtherOption u8 bytes

fun option_code :: "'n DhcpOption \<Rightarrow> OptionCode" where
  "option_code (MessageTypeOption _) = MessageTypeCode"
| "option_code (ServerIdentifier _) = ServerIdentifierCode"
| "option_code (RequestedIpAddress _) = RequestedIpAddressCode"
| "option_code (ClientIdentifier _) = ClientIdentifierCode"
| "option_code (SubnetMask _) = SubnetMaskCode"
| "option_code (Router _) = RouterCode"
| "option_code (DomainNameServer _) = DomainNameServerCode"
| "option_code (AddressLeaseTime _) = AddressLeaseTimeCode"
| "option_code (DomainSearch _) = DomainSearchCode"
| "option_code (OtherOption c _) = OtherCode c"

record 'n Message =
  opcode :: Opcode
  htype :: HType
  hlen :: u8
  chaddr :: bytes
  giaddr :: ipv4addr
  ciaddr :: ipv4addr
  yiaddr :: ipv4addr
  xid :: u32
  flags :: u16
  opts :: "OptionCode \<rightharpoonup> 'n DhcpOption"
  msg_type :: "MessageType option"

text \<open>What is written into a reply frame, field by field.\<close>

record UdpFrame =
  eth_src :: mac
  eth_dst :: mac
  ip_src :: ipv4addr
  ip_dst :: ipv4addr
  ip_payload_len :: nat
  hop_limit :: nat
  udp_src :: u16
  udp_dst :: u16
  udp_body :: bytes

record ('n, 'msg) dhcp_ops =
  msg_view :: "'msg \<Rightarrow> 'n Message"
  msg_from_bytes :: "bytes \<Rightarrow> 'msg option"
  msg_to_vec :: "'msg \<Rightarrow> bytes option"
  msg_default :: 'msg
  set_xid :: "u32 \<Rightarrow> 'msg \<Rightarrow> 'msg"
  set_chaddr :: "bytes \<Rightarrow> 'msg \<Rightarrow> 'msg"
  set_opcode :: "Opcode \<Rightarrow> 'msg \<Rightarrow> 'msg"
  set_flags :: "u16 \<Rightarrow> 'msg \<Rightarrow> 'msg"
  set_ciaddr :: "ipv4addr \<Rightarrow> 'msg \<Rightarrow> 'msg"
  set_yiaddr :: "ipv4addr \<Rightarrow> 'msg \<Rightarrow> 'msg"
  opt_insert :: "'n DhcpOption \<Rightarrow> 'msg \<Rightarrow> 'msg"
  flags_default :: u16
  flags_set_broadcast :: "u16 \<Rightarrow> u16"
  flags_broadcast :: "u16 \<Rightarrow> bool"
  frame_emit :: "UdpFrame \<Rightarrow> bytes"

text \<open>The port numbers and the minimum message size that \<open>dhcproto\<close> exports, and header sizes.\<close>

definition SERVER_PORT :: u16 where
  "SERVER_PORT = 67"

definition CLIENT_PORT :: u16 where
  "CLIENT_PORT = 68"

definition MIN_PACKET_SIZE :: nat where
  "MIN_PACKET_SIZE = 300"

definition UDP_HEADER_LEN :: nat where
  "UDP_HEADER_LEN = 8"

section \<open>The server\<close>

definition DHCP_SERVER_MAC :: mac where
  "DHCP_SERVER_MAC = [2, 0, 0, 0, 0, 1]"

definition BROADCAST_MAC :: mac where
  "BROADCAST_MAC = replicate 6 255"

definition BROADCAST_IP :: ipv4addr where
  "BROADCAST_IP = - 1"

record 'n DhcpServer =
  dhcp_vm_mac :: mac
  dhcp_vm_ip :: ipv4addr
  dhcp_subnet_mask :: ipv4addr
  dhcp_gateway_ip :: ipv4addr
  search_domains :: "'n list"

datatype dhcp_error = DhcpEncodeError

definition DhcpServer_new ::
  "mac \<Rightarrow> ipv4addr \<Rightarrow> ipv4addr \<Rightarrow> ipv4addr \<Rightarrow> 'n list \<Rightarrow> 'n DhcpServer" where
  "DhcpServer_new vm_mac vm_ip subnet_mask gateway_ip domains =
     \<lparr>dhcp_vm_mac = vm_mac, dhcp_vm_ip = vm_ip, dhcp_subnet_mask = subnet_mask,
      dhcp_gateway_ip = gateway_ip, search_domains = domains\<rparr>"

definition dhcp_reply ::
  "('n, 'msg) dhcp_ops \<Rightarrow> 'n DhcpServer \<Rightarrow> 'msg \<Rightarrow> MessageType \<Rightarrow> 'msg" where
  "dhcp_reply D server request message_type =
     (let rq = msg_view D request;
          nak = (message_type = Nak);
          reply = set_opcode D BootReply (set_chaddr D (chaddr rq) (set_xid D (xid rq) (msg_default D)));
          reply = (if nak then set_flags D (flags_set_broadcast D (flags_default D)) reply
                   else set_flags D (flags rq) (set_ciaddr D (ciaddr rq) reply));
          reply = opt_insert D (MessageTypeOption message_type) reply;
          reply = opt_insert D (ServerIdentifier (dhcp_gateway_ip server)) reply
      in (case opts rq ClientIdentifierCode of
            Some identifier \<Rightarrow> opt_insert D identifier reply
          | None \<Rightarrow> reply))"

definition address_reply ::
  "('n, 'msg) dhcp_ops \<Rightarrow> 'n DhcpServer \<Rightarrow> 'msg \<Rightarrow> MessageType \<Rightarrow> 'msg" where
  "address_reply D server request message_type =
     (let reply = dhcp_reply D server request message_type;
          reply = set_yiaddr D (dhcp_vm_ip server) reply;
          reply = opt_insert D (SubnetMask (dhcp_subnet_mask server)) reply;
          reply = opt_insert D (Router [dhcp_gateway_ip server]) reply;
          reply = opt_insert D (DomainNameServer [dhcp_gateway_ip server]) reply;
          reply = opt_insert D (AddressLeaseTime (- 1)) reply
      in if search_domains server \<noteq> [] then opt_insert D (DomainSearch (search_domains server)) reply
         else reply)"

definition dhcp_receive ::
  "('n, 'msg) dhcp_ops \<Rightarrow> 'n DhcpServer \<Rightarrow> 'msg \<Rightarrow> 'msg option" where
  "dhcp_receive D server request =
     (let rq = msg_view D request
      in if opcode rq \<noteq> BootRequest \<or> htype rq \<noteq> Eth \<or> hlen rq \<noteq> of_nat (length (dhcp_vm_mac server)) \<or>
            chaddr rq \<noteq> dhcp_vm_mac server \<or> \<not> is_unspecified (giaddr rq)
         then None
         else
           let server_id = (case opts rq ServerIdentifierCode of
                              Some (ServerIdentifier address) \<Rightarrow> Some address | _ \<Rightarrow> None);
               requested_ip = (case opts rq RequestedIpAddressCode of
                                 Some (RequestedIpAddress address) \<Rightarrow> Some address | _ \<Rightarrow> None)
           in if (case server_id of None \<Rightarrow> False | Some address \<Rightarrow> address \<noteq> dhcp_gateway_ip server)
              then None
              else (case msg_type rq of
                      None \<Rightarrow> None
                    | Some Discover \<Rightarrow>
                        if is_unspecified (ciaddr rq) \<and> server_id = None
                        then Some (address_reply D server request Offer) else None
                    | Some Request \<Rightarrow>
                        (case (case (server_id, requested_ip, is_unspecified (ciaddr rq)) of
                                 (_, Some address, True) \<Rightarrow> Some address
                               | (None, None, False) \<Rightarrow> Some (ciaddr rq)
                               | _ \<Rightarrow> None) of
                           None \<Rightarrow> None
                         | Some address \<Rightarrow>
                             if address \<noteq> dhcp_vm_ip server then Some (dhcp_reply D server request Nak)
                             else Some (address_reply D server request Ack))
                    | Some _ \<Rightarrow> None))"

definition encode_packet ::
  "('n, 'msg) dhcp_ops \<Rightarrow> 'msg \<Rightarrow> mac \<Rightarrow> mac \<Rightarrow> ipv4addr \<Rightarrow> ipv4addr \<Rightarrow> u16 \<Rightarrow> u16 \<Rightarrow>
   dhcp_error + bytes" where
  "encode_packet D message source_mac destination_mac source_ip destination_ip source_port destination_port =
     and_then (ok_or DhcpEncodeError (msg_to_vec D message)) (\<lambda>payload.
       let payload = payload @ replicate (max (length payload) MIN_PACKET_SIZE - length payload) 0
       in Inr (frame_emit D
            \<lparr>eth_src = source_mac, eth_dst = destination_mac, ip_src = source_ip, ip_dst = destination_ip,
             ip_payload_len = UDP_HEADER_LEN + length payload, hop_limit = 64,
             udp_src = source_port, udp_dst = destination_port, udp_body = payload\<rparr>))"

definition receive_vm ::
  "('n, 'msg) dhcp_ops \<Rightarrow> 'n DhcpServer \<Rightarrow> Ipv4Packet \<Rightarrow> UdpHeader \<Rightarrow> dhcp_error + bytes option" where
  "receive_vm D server ip udp =
     (if udp_src_port udp \<noteq> CLIENT_PORT \<or> \<not> ip_checksum_ok ip \<or> more_frags ip \<or> frag_offset ip \<noteq> 0 \<or>
         \<not> udp_repr_ok udp
      then Inr None
      else if \<not> (is_broadcast (dst_addr ip) \<or> dst_addr ip = dhcp_gateway_ip server) then Inr None
      else (case msg_from_bytes D (udp_payload udp) of
              None \<Rightarrow> Inr None
            | Some request \<Rightarrow>
                let rq = msg_view D request
                in if msg_type rq \<noteq> Some Request \<and> \<not> is_unspecified (src_addr ip) \<and>
                      dhcp_vm_ip server \<noteq> src_addr ip
                   then Inr None
                   else (case dhcp_receive D server request of
                           None \<Rightarrow> Inr None
                         | Some reply \<Rightarrow>
                             let rp = msg_view D reply;
                                 (destination_mac, destination_ip) =
                                   (if msg_type rp = Some Nak \<or> flags_broadcast D (flags rq)
                                    then (BROADCAST_MAC, BROADCAST_IP)
                                    else if \<not> is_unspecified (ciaddr rq) then (dhcp_vm_mac server, ciaddr rq)
                                    else (dhcp_vm_mac server, yiaddr rp))
                             in and_then
                                  (encode_packet D reply DHCP_SERVER_MAC destination_mac
                                     (dhcp_gateway_ip server) destination_ip SERVER_PORT CLIENT_PORT)
                                  (\<lambda>packet. Inr (Some packet)))))"

section \<open>Specification\<close>

definition server_identifier :: "'n Message \<Rightarrow> ipv4addr option" where
  "server_identifier rq =
     (case opts rq ServerIdentifierCode of Some (ServerIdentifier a) \<Rightarrow> Some a | _ \<Rightarrow> None)"

definition requested_ip_address :: "'n Message \<Rightarrow> ipv4addr option" where
  "requested_ip_address rq =
     (case opts rq RequestedIpAddressCode of Some (RequestedIpAddress a) \<Rightarrow> Some a | _ \<Rightarrow> None)"

text \<open>A request of the attached VM, sent directly, that does not select another server.\<close>

definition from_attached_vm :: "'n DhcpServer \<Rightarrow> 'n Message \<Rightarrow> bool" where
  "from_attached_vm server rq \<longleftrightarrow>
     opcode rq = BootRequest \<and> htype rq = Eth \<and> hlen rq = of_nat (length (dhcp_vm_mac server)) \<and>
     chaddr rq = dhcp_vm_mac server \<and> giaddr rq = 0 \<and>
     (server_identifier rq = None \<or> server_identifier rq = Some (dhcp_gateway_ip server))"

text \<open>
  The address a REQUEST asks for: option 50 of a client without address, or the address of a
  client that renews without naming a server.
\<close>

definition chosen_address :: "'n Message \<Rightarrow> ipv4addr option" where
  "chosen_address rq =
     (if ciaddr rq = 0 then requested_ip_address rq
      else if server_identifier rq = None \<and> requested_ip_address rq = None then Some (ciaddr rq)
      else None)"

definition dhcp_answer :: "'n DhcpServer \<Rightarrow> 'n Message \<Rightarrow> MessageType option" where
  "dhcp_answer server rq =
     (if \<not> from_attached_vm server rq then None
      else if msg_type rq = Some Discover \<and> ciaddr rq = 0 \<and> server_identifier rq = None then Some Offer
      else if msg_type rq = Some Request
      then map_option (\<lambda>a. if a = dhcp_vm_ip server then Ack else Nak) (chosen_address rq)
      else None)"

definition reply_common :: "'n DhcpServer \<Rightarrow> 'n Message \<Rightarrow> 'n Message \<Rightarrow> bool" where
  "reply_common server rq rp \<longleftrightarrow>
     opcode rp = BootReply \<and> xid rp = xid rq \<and> chaddr rp = chaddr rq \<and>
     opts rp ServerIdentifierCode = Some (ServerIdentifier (dhcp_gateway_ip server)) \<and>
     opts rp ClientIdentifierCode = opts rq ClientIdentifierCode"

definition reply_configures :: "'n DhcpServer \<Rightarrow> 'n Message \<Rightarrow> 'n Message \<Rightarrow> bool" where
  "reply_configures server rq rp \<longleftrightarrow>
     yiaddr rp = dhcp_vm_ip server \<and> ciaddr rp = ciaddr rq \<and> flags rp = flags rq \<and>
     opts rp SubnetMaskCode = Some (SubnetMask (dhcp_subnet_mask server)) \<and>
     opts rp RouterCode = Some (Router [dhcp_gateway_ip server]) \<and>
     opts rp DomainNameServerCode = Some (DomainNameServer [dhcp_gateway_ip server]) \<and>
     opts rp AddressLeaseTimeCode = Some (AddressLeaseTime (- 1)) \<and>
     opts rp DomainSearchCode =
       (if search_domains server = [] then None else Some (DomainSearch (search_domains server)))"

section \<open>Lemmas: which reply\<close>

lemma dhcp_receive_answer:
  "dhcp_receive D server request =
     (case dhcp_answer server (msg_view D request) of
        None \<Rightarrow> None
      | Some t \<Rightarrow> Some (if t = Nak then dhcp_reply D server request Nak else address_reply D server request t))"
proof -
  define rq where "rq = msg_view D request"
  define sid where "sid = server_identifier rq"
  define req where "req = requested_ip_address rq"
  have receive: "dhcp_receive D server request =
      (if \<not> from_attached_vm server rq then None
       else case msg_type rq of
         Some Discover \<Rightarrow> if ciaddr rq = 0 \<and> sid = None then Some (address_reply D server request Offer) else None
       | Some Request \<Rightarrow>
           (case (case (sid, req, ciaddr rq = 0) of
                    (_, Some address, True) \<Rightarrow> Some address
                  | (None, None, False) \<Rightarrow> Some (ciaddr rq) | _ \<Rightarrow> None) of
              None \<Rightarrow> None
            | Some address \<Rightarrow> if address \<noteq> dhcp_vm_ip server then Some (dhcp_reply D server request Nak)
                else Some (address_reply D server request Ack))
       | _ \<Rightarrow> None)"
    unfolding dhcp_receive_def Let_def rq_def [symmetric] server_identifier_def [symmetric]
      requested_ip_address_def [symmetric] sid_def [symmetric] req_def [symmetric] is_unspecified_def
    by (cases sid) (auto simp: from_attached_vm_def sid_def [symmetric] split: option.splits MessageType.splits)
  have chosen: "(case (sid, req, ciaddr rq = 0) of
      (_, Some address, True) \<Rightarrow> Some address | (None, None, False) \<Rightarrow> Some (ciaddr rq) | _ \<Rightarrow> None) =
      chosen_address rq"
    by (cases sid; cases req; cases "ciaddr rq = 0")
      (simp_all add: chosen_address_def sid_def [symmetric] req_def [symmetric])
  show ?thesis
    unfolding receive chosen rq_def [symmetric] dhcp_answer_def sid_def [symmetric]
    by (auto split: option.splits MessageType.splits)
qed

section \<open>The laws of the message type\<close>

locale dhcp_api =
  fixes D :: "('n, 'msg) dhcp_ops"
  assumes view_default: "ciaddr (msg_view D (msg_default D)) = 0" "yiaddr (msg_view D (msg_default D)) = 0"
      "opts (msg_view D (msg_default D)) = Map.empty"
    and view_set_xid: "msg_view D (set_xid D x m) = (msg_view D m)\<lparr>xid := x\<rparr>"
    and view_set_chaddr: "length c \<le> 16 \<Longrightarrow>
      msg_view D (set_chaddr D c m) = (msg_view D m)\<lparr>chaddr := c, hlen := of_nat (length c)\<rparr>"
    and view_set_opcode: "msg_view D (set_opcode D op m) = (msg_view D m)\<lparr>opcode := op\<rparr>"
    and view_set_flags: "msg_view D (set_flags D fl m) = (msg_view D m)\<lparr>flags := fl\<rparr>"
    and view_set_ciaddr: "msg_view D (set_ciaddr D a m) = (msg_view D m)\<lparr>ciaddr := a\<rparr>"
    and view_set_yiaddr: "msg_view D (set_yiaddr D a m) = (msg_view D m)\<lparr>yiaddr := a\<rparr>"
    and view_opt_insert: "msg_view D (opt_insert D opt m) = (msg_view D m)
      \<lparr>opts := (opts (msg_view D m))(option_code opt \<mapsto> opt),
       msg_type := (case opt of MessageTypeOption t \<Rightarrow> Some t | _ \<Rightarrow> msg_type (msg_view D m))\<rparr>"
    and view_opts_code: "opts (msg_view D m) code = Some opt \<Longrightarrow> option_code opt = code"
    and view_chaddr_len: "length (chaddr (msg_view D m)) \<le> 16"
    and set_broadcast: "flags_broadcast D (flags_set_broadcast D fl)"
begin

lemmas view_simps = view_default view_set_xid view_set_opcode view_set_flags
  view_set_ciaddr view_set_yiaddr view_opt_insert view_chaddr_len set_broadcast

lemma dhcp_reply_view:
  assumes rq_def: "rq = msg_view D request"
  shows "reply_common server rq (msg_view D (dhcp_reply D server request t))"
    and "msg_type (msg_view D (dhcp_reply D server request t)) = Some t"
    and "yiaddr (msg_view D (dhcp_reply D server request t)) = 0"
    and "t = Nak \<Longrightarrow> ciaddr (msg_view D (dhcp_reply D server request t)) = 0 \<and>
      flags_broadcast D (flags (msg_view D (dhcp_reply D server request t)))"
    and "t \<noteq> Nak \<Longrightarrow> ciaddr (msg_view D (dhcp_reply D server request t)) = ciaddr rq \<and>
      flags (msg_view D (dhcp_reply D server request t)) = flags rq"
    and "c \<notin> {MessageTypeCode, ServerIdentifierCode, ClientIdentifierCode} \<Longrightarrow>
      opts (msg_view D (dhcp_reply D server request t)) c = None"
proof -
  have client: "option_code opt = ClientIdentifierCode"
    if "opts rq ClientIdentifierCode = Some opt" for opt
    using that unfolding rq_def by (rule view_opts_code)
  have no_type: "(case opt of MessageTypeOption t \<Rightarrow> Some t | _ \<Rightarrow> x) = x"
    if "option_code opt = ClientIdentifierCode" for opt :: "'n DhcpOption" and x
    using that by (cases opt) simp_all
  note defs = dhcp_reply_def Let_def view_simps view_set_chaddr rq_def [symmetric]
  show "reply_common server rq (msg_view D (dhcp_reply D server request t))"
    by (cases "opts rq ClientIdentifierCode") (simp_all add: defs reply_common_def client view_chaddr_len[of request, folded rq_def])
  show "msg_type (msg_view D (dhcp_reply D server request t)) = Some t"
    by (cases "opts rq ClientIdentifierCode") (simp_all add: defs client no_type)
  show "yiaddr (msg_view D (dhcp_reply D server request t)) = 0"
    by (cases "opts rq ClientIdentifierCode") (simp_all add: defs view_chaddr_len[of request, folded rq_def])
  show "t = Nak \<Longrightarrow> ciaddr (msg_view D (dhcp_reply D server request t)) = 0 \<and>
      flags_broadcast D (flags (msg_view D (dhcp_reply D server request t)))"
    by (cases "opts rq ClientIdentifierCode") (simp_all add: defs view_chaddr_len[of request, folded rq_def])
  show "t \<noteq> Nak \<Longrightarrow> ciaddr (msg_view D (dhcp_reply D server request t)) = ciaddr rq \<and>
      flags (msg_view D (dhcp_reply D server request t)) = flags rq"
    by (cases "opts rq ClientIdentifierCode") (simp_all add: defs)
  show "c \<notin> {MessageTypeCode, ServerIdentifierCode, ClientIdentifierCode} \<Longrightarrow>
      opts (msg_view D (dhcp_reply D server request t)) c = None"
    by (cases "opts rq ClientIdentifierCode") (simp_all add: defs client view_chaddr_len[of request, folded rq_def])
qed

lemma address_reply_view:
  assumes rq_def: "rq = msg_view D request" and "t \<noteq> Nak"
  shows "reply_common server rq (msg_view D (address_reply D server request t))"
    and "msg_type (msg_view D (address_reply D server request t)) = Some t"
    and "reply_configures server rq (msg_view D (address_reply D server request t))"
proof -
  note defs = address_reply_def Let_def view_simps
  note base = dhcp_reply_view[OF rq_def, where server = server and t = t]
  show "reply_common server rq (msg_view D (address_reply D server request t))"
    using base(1) by (simp add: defs reply_common_def)
  show "msg_type (msg_view D (address_reply D server request t)) = Some t"
    using base(2) by (simp add: defs)
  show "reply_configures server rq (msg_view D (address_reply D server request t))"
    using base(5) assms(2) dhcp_reply_view(6)[OF rq_def, where server = server and t = t and c = DomainSearchCode] by (simp add: defs reply_configures_def)
qed

lemma answer_types: "dhcp_answer server rq = Some t \<Longrightarrow> t = Offer \<or> t = Ack \<or> t = Nak"
  by (auto simp: dhcp_answer_def split: if_splits)

lemma receive_reply:
  assumes "dhcp_receive D server request = Some reply" and rq: "rq = msg_view D request"
    and rp: "rp = msg_view D reply"
  shows "msg_type rp = dhcp_answer server rq" "reply_common server rq rp"
    "msg_type rp = Some Nak \<Longrightarrow> yiaddr rp = 0 \<and> ciaddr rp = 0 \<and> flags_broadcast D (flags rp)"
    "msg_type rp \<noteq> Some Nak \<Longrightarrow> reply_configures server rq rp"
proof -
  from assms(1) obtain t where t: "dhcp_answer server rq = Some t"
    and reply: "reply = (if t = Nak then dhcp_reply D server request Nak else address_reply D server request t)"
    unfolding dhcp_receive_answer rq [symmetric] by (auto split: option.splits)
  note nak = dhcp_reply_view[OF rq, where server = server and t = Nak]
  note addr = address_reply_view[OF rq, where server = server and t = t]
  show "msg_type rp = dhcp_answer server rq" "reply_common server rq rp"
    "msg_type rp = Some Nak \<Longrightarrow> yiaddr rp = 0 \<and> ciaddr rp = 0 \<and> flags_broadcast D (flags rp)"
    "msg_type rp \<noteq> Some Nak \<Longrightarrow> reply_configures server rq rp"
    using nak addr t unfolding rp reply by (cases "t = Nak"; simp)+
qed

text \<open>A unicast reply always goes to the reserved address.\<close>

lemma unicast_address:
  assumes "dhcp_receive D server request = Some reply" and rq: "rq = msg_view D request"
    and rp: "rp = msg_view D reply" and "msg_type rp \<noteq> Some Nak"
  shows "ciaddr rq = 0 \<or> ciaddr rq = dhcp_vm_ip server" "yiaddr rp = dhcp_vm_ip server"
proof -
  note r = receive_reply[OF assms(1) rq rp]
  show "yiaddr rp = dhcp_vm_ip server" using r(4) assms(4) by (simp add: reply_configures_def)
  have "dhcp_answer server rq \<noteq> None"
    using assms(1) unfolding dhcp_receive_answer rq [symmetric] by (auto split: option.splits)
  moreover have "dhcp_answer server rq \<noteq> Some Nak" using r(1) assms(4) by simp
  ultimately show "ciaddr rq = 0 \<or> ciaddr rq = dhcp_vm_ip server"
    by (auto simp: dhcp_answer_def chosen_address_def split: if_splits)
qed

lemma receive_vm_frame:
  assumes "receive_vm D server ip udp = Inr (Some packet)"
  shows "\<exists>request reply frame. msg_from_bytes D (udp_payload udp) = Some request \<and>
    dhcp_receive D server request = Some reply \<and> packet = frame_emit D frame \<and>
    eth_src frame = DHCP_SERVER_MAC \<and> ip_src frame = dhcp_gateway_ip server \<and>
    udp_src frame = SERVER_PORT \<and> udp_dst frame = CLIENT_PORT \<and>
    ((eth_dst frame = BROADCAST_MAC \<and> ip_dst frame = BROADCAST_IP) \<or>
     (eth_dst frame = dhcp_vm_mac server \<and> ip_dst frame = dhcp_vm_ip server \<and>
      msg_type (msg_view D reply) \<noteq> Some Nak)) \<and>
    MIN_PACKET_SIZE \<le> length (udp_body frame) \<and>
    ip_payload_len frame = UDP_HEADER_LEN + length (udp_body frame) \<and>
    (\<exists>message. msg_to_vec D reply = Some message \<and> take (length message) (udp_body frame) = message)"
proof -
  from assms obtain request reply where req: "msg_from_bytes D (udp_payload udp) = Some request"
    and rep: "dhcp_receive D server request = Some reply"
    and enc: "encode_packet D reply DHCP_SERVER_MAC
      (if msg_type (msg_view D reply) = Some Nak \<or> flags_broadcast D (flags (msg_view D request))
       then BROADCAST_MAC else dhcp_vm_mac server)
      (dhcp_gateway_ip server)
      (if msg_type (msg_view D reply) = Some Nak \<or> flags_broadcast D (flags (msg_view D request))
       then BROADCAST_IP else if ciaddr (msg_view D request) \<noteq> 0 then ciaddr (msg_view D request)
       else yiaddr (msg_view D reply)) SERVER_PORT CLIENT_PORT = Inr packet"
    by (auto simp: receive_vm_def Let_def is_unspecified_def result_iffs split: if_splits option.splits)
  note u = unicast_address[OF rep refl refl]
  from enc obtain message where m: "msg_to_vec D reply = Some message"
    by (auto simp: encode_packet_def result_iffs)
  let ?b = "msg_type (msg_view D reply) = Some Nak \<or> flags_broadcast D (flags (msg_view D request))"
  let ?body = "message @ replicate (max (length message) MIN_PACKET_SIZE - length message) 0"
  let ?frame = "\<lparr>eth_src = DHCP_SERVER_MAC, eth_dst = if ?b then BROADCAST_MAC else dhcp_vm_mac server,
    ip_src = dhcp_gateway_ip server, ip_dst = if ?b then BROADCAST_IP
      else if ciaddr (msg_view D request) \<noteq> 0 then ciaddr (msg_view D request) else yiaddr (msg_view D reply),
    ip_payload_len = UDP_HEADER_LEN + length ?body, hop_limit = 64,
    udp_src = SERVER_PORT, udp_dst = CLIENT_PORT, udp_body = ?body\<rparr>"
  have packet: "packet = frame_emit D ?frame"
    using enc m by (simp add: encode_packet_def Let_def ok_or_def)
  have dst: "(eth_dst ?frame = BROADCAST_MAC \<and> ip_dst ?frame = BROADCAST_IP) \<or>
     (eth_dst ?frame = dhcp_vm_mac server \<and> ip_dst ?frame = dhcp_vm_ip server \<and>
      msg_type (msg_view D reply) \<noteq> Some Nak)"
    using u by auto
  show ?thesis
    by (rule exI[of _ request], rule exI[of _ reply], rule exI[of _ ?frame])
      (use req rep packet dst m in simp)
qed

end

lemma receive_vm_accepts:
  "receive_vm D server ip udp = Inr (Some packet) \<Longrightarrow>
   udp_src_port udp = CLIENT_PORT \<and> ip_checksum_ok ip \<and> \<not> is_fragment ip \<and> udp_repr_ok udp \<and>
   (dst_addr ip = BROADCAST_IP \<or> dst_addr ip = dhcp_gateway_ip server)"
  by (auto simp: receive_vm_def is_fragment_def is_broadcast_def BROADCAST_IP_def split: if_splits)

section \<open>A computing instance\<close>

text \<open>Messages are the records of what their accessors return; the codec decodes one fixed request.\<close>

definition ref_view :: "'n Message \<Rightarrow> 'n Message" where
  "ref_view m = m\<lparr>chaddr := take 16 (chaddr m),
     opts := (\<lambda>c. case opts m c of None \<Rightarrow> None | Some opt \<Rightarrow> if option_code opt = c then Some opt else None)\<rparr>"

definition sample_request :: "string Message" where
  "sample_request =
     \<lparr>opcode = BootRequest, htype = Eth, hlen = 6, chaddr = [2, 0, 0, 0, 0, 9], giaddr = 0, ciaddr = 0,
      yiaddr = 0, xid = 77, flags = 0, opts = [RequestedIpAddressCode \<mapsto> RequestedIpAddress 3232235522],
      msg_type = Some Request\<rparr>"

definition ref_dhcp :: "(string, string Message) dhcp_ops" where
  "ref_dhcp =
     \<lparr>msg_view = ref_view,
      msg_from_bytes = (\<lambda>_. Some sample_request),
      msg_to_vec = (\<lambda>m. Some (chaddr m)),
      msg_default = \<lparr>opcode = BootRequest, htype = Eth, hlen = 0, chaddr = [], giaddr = 0, ciaddr = 0,
        yiaddr = 0, xid = 0, flags = 0, opts = Map.empty, msg_type = None\<rparr>,
      set_xid = (\<lambda>x m. m\<lparr>xid := x\<rparr>),
      set_chaddr = (\<lambda>c m. m\<lparr>chaddr := c, hlen := of_nat (length c)\<rparr>),
      set_opcode = (\<lambda>c m. m\<lparr>opcode := c\<rparr>),
      set_flags = (\<lambda>f m. m\<lparr>flags := f\<rparr>),
      set_ciaddr = (\<lambda>a m. m\<lparr>ciaddr := a\<rparr>),
      set_yiaddr = (\<lambda>a m. m\<lparr>yiaddr := a\<rparr>),
      opt_insert = (\<lambda>opt m. m\<lparr>opts := (opts m)(option_code opt \<mapsto> opt),
        msg_type := (case opt of MessageTypeOption t \<Rightarrow> Some t | _ \<Rightarrow> msg_type m)\<rparr>),
      flags_default = 0,
      flags_set_broadcast = (\<lambda>_. 32768),
      flags_broadcast = (\<lambda>f. 32768 \<le> f),
      frame_emit = (\<lambda>f. eth_dst f @ eth_src f @ udp_body f)\<rparr>"

interpretation ref_dhcp_api: dhcp_api ref_dhcp
  by unfold_locales
    (auto simp: ref_dhcp_def ref_view_def fun_eq_iff split: option.splits DhcpOption.splits if_splits)

definition sample_server :: "string DhcpServer" where
  "sample_server = DhcpServer_new [2, 0, 0, 0, 0, 9] 3232235522 4294967288 3232235521 []"

definition sample_dhcp_packet :: Ipv4Packet where
  "sample_dhcp_packet =
     \<lparr>src_addr = 0, dst_addr = - 1, next_header = IpUdp, header_len = 20, more_frags = False,
      frag_offset = 0, ip_checksum_ok = True, payload_len = 308, tcp_header = None,
      udp_header = \<lparr>udp_checked = True, udp_src_port = 68, udp_dst_port = 67, udp_len = 308,
        udp_checksum_ok = True, udp_repr_ok = True, udp_payload = []\<rparr>,
      icmp_header = None\<rparr>"

section \<open>Properties\<close>

text \<open>
  C29: the server answers exactly the requests it should, with exactly the reply it should. A
  DISCOVER of the attached VM gets an OFFER; a REQUEST gets an ACK when it asks for the reserved
  address and a NAK for any other address; everything else, and every message of another client or
  for another server, gets no reply. Every reply carries the transaction, the hardware address and
  the client identifier of the request; an OFFER or ACK hands out the reserved address with the
  network configuration, and a NAK hands out no address.
\<close>

theorem dhcp_receive_exact:
  assumes "dhcp_api D"
  shows "map_option (\<lambda>reply. msg_type (msg_view D reply)) (dhcp_receive D server request) =
      map_option Some (dhcp_answer server (msg_view D request)) \<and>
    (\<forall>reply. dhcp_receive D server request = Some reply \<longrightarrow>
      reply_common server (msg_view D request) (msg_view D reply) \<and>
      (if msg_type (msg_view D reply) = Some Nak
       then yiaddr (msg_view D reply) = 0 \<and> ciaddr (msg_view D reply) = 0 \<and>
         flags_broadcast D (flags (msg_view D reply))
       else reply_configures server (msg_view D request) (msg_view D reply)))"
proof -
  have "map_option (\<lambda>reply. msg_type (msg_view D reply)) (dhcp_receive D server request) =
      map_option Some (dhcp_answer server (msg_view D request))"
  proof (cases "dhcp_receive D server request")
    case None
    then show ?thesis by (auto simp: dhcp_receive_answer split: option.splits)
  next
    case (Some reply)
    then obtain t where "dhcp_answer server (msg_view D request) = Some t"
      by (auto simp: dhcp_receive_answer split: option.splits)
    with Some show ?thesis
      using dhcp_api.receive_reply(1)[OF assms Some refl refl] by simp
  qed
  then show ?thesis using dhcp_api.receive_reply(2-4)[OF assms _ refl refl] by simp
qed

theorem dhcp_receive_exact_witness:
  "\<exists>reply. dhcp_receive ref_dhcp sample_server sample_request = Some reply \<and>
     msg_type (msg_view ref_dhcp reply) = Some Ack \<and> yiaddr (msg_view ref_dhcp reply) = 3232235522"
proof -
  have "dhcp_answer sample_server (msg_view ref_dhcp sample_request) = Some Ack"
    by (simp add: dhcp_answer_def from_attached_vm_def chosen_address_def server_identifier_def
        requested_ip_address_def sample_server_def DhcpServer_new_def sample_request_def ref_dhcp_def ref_view_def)
  with dhcp_receive_exact[OF ref_dhcp_api.dhcp_api_axioms, of sample_server sample_request]
  show ?thesis
    by (auto simp: reply_configures_def sample_server_def DhcpServer_new_def)
qed

text \<open>
  C30: DHCP replies stay with the VM. A reply is produced only for an intact datagram from the client
  port to the broadcast or gateway address; it is sent from the server's address and port, either
  broadcast or to the VM's hardware address at its reserved address (never to another unicast
  address, and a NAK is always broadcast), and its body is the encoded message padded to the
  minimum size.
\<close>

theorem dhcp_frames_confined:
  assumes "dhcp_api D" and "receive_vm D server ip udp = Inr (Some packet)"
  shows "udp_src_port udp = CLIENT_PORT \<and> ip_checksum_ok ip \<and> \<not> is_fragment ip \<and> udp_repr_ok udp \<and>
    (dst_addr ip = BROADCAST_IP \<or> dst_addr ip = dhcp_gateway_ip server) \<and>
    (\<exists>request reply frame. msg_from_bytes D (udp_payload udp) = Some request \<and>
      dhcp_receive D server request = Some reply \<and> packet = frame_emit D frame \<and>
      eth_src frame = DHCP_SERVER_MAC \<and> ip_src frame = dhcp_gateway_ip server \<and>
      udp_src frame = SERVER_PORT \<and> udp_dst frame = CLIENT_PORT \<and>
      ((eth_dst frame = BROADCAST_MAC \<and> ip_dst frame = BROADCAST_IP) \<or>
       (eth_dst frame = dhcp_vm_mac server \<and> ip_dst frame = dhcp_vm_ip server \<and>
        msg_type (msg_view D reply) \<noteq> Some Nak)) \<and>
      MIN_PACKET_SIZE \<le> length (udp_body frame) \<and>
      ip_payload_len frame = UDP_HEADER_LEN + length (udp_body frame) \<and>
      (\<exists>message. msg_to_vec D reply = Some message \<and> take (length message) (udp_body frame) = message))"
  using receive_vm_accepts[OF assms(2)] dhcp_api.receive_vm_frame[OF assms] by simp

theorem dhcp_frames_confined_witness:
  "\<exists>packet frame. receive_vm ref_dhcp sample_server sample_dhcp_packet (udp_header sample_dhcp_packet) =
     Inr (Some packet) \<and> packet = frame_emit ref_dhcp frame \<and> 300 \<le> length (udp_body frame)"
proof -
  have "\<exists>packet. receive_vm ref_dhcp sample_server sample_dhcp_packet (udp_header sample_dhcp_packet) =
      Inr (Some packet)"
    by (simp add: receive_vm_def sample_dhcp_packet_def CLIENT_PORT_def is_broadcast_def ref_dhcp_def
        sample_request_def ref_view_def dhcp_receive_def sample_server_def DhcpServer_new_def
        is_unspecified_def encode_packet_def address_reply_def dhcp_reply_def ok_or_def Let_def)
  then obtain packet where p: "receive_vm ref_dhcp sample_server sample_dhcp_packet
      (udp_header sample_dhcp_packet) = Inr (Some packet)" by blast
  from dhcp_frames_confined[OF ref_dhcp_api.dhcp_api_axioms p] p show ?thesis
    unfolding MIN_PACKET_SIZE_def by blast
qed

end
