(* ===== verification/Dns_Server.thy ===== *)
theory Dns_Server
  imports Wire
begin

text \<open>
  The DNS server for VM names (\<open>lib/dns_server/mod.rs\<close>). Names, zones, the catalog and the DNS
  codec belong to the \<open>hickory-server\<close> crate and the frame builder to \<open>etherparse\<close>; their
  operations are fields of a parameter record over opaque types: names \<open>'n\<close>, zones \<open>'z\<close>,
  catalogs \<open>'c\<close>, requests \<open>'rq\<close> and responses \<open>'rs\<close>.
\<close>

section \<open>The library interface\<close>

datatype 'n RData = RSoa 'n | RA ipv4addr

text \<open>
  \<open>name_eq\<close> is the equality of the order on names that \<open>BTreeSet\<close> uses. \<open>catalog_responses\<close>
  is what \<open>handle_request\<close> passes to \<open>send_response\<close>, in order; \<open>emit_response\<close> is
  \<open>destructive_emit\<close> into an encoder with the given maximum size.
\<close>

record ('n, 'z, 'c, 'rq, 'rs) dns_ops =
  name_from_ascii :: "string \<Rightarrow> 'n option"
  name_set_fqdn :: "'n \<Rightarrow> 'n"
  name_is_fqdn :: "'n \<Rightarrow> bool"
  name_num_labels :: "'n \<Rightarrow> nat"
  name_is_wildcard :: "'n \<Rightarrow> bool"
  name_eq :: "'n \<Rightarrow> 'n \<Rightarrow> bool"
  name_append_domain :: "'n \<Rightarrow> 'n \<Rightarrow> 'n option"
  zone_empty :: "'n \<Rightarrow> 'z"
  zone_upsert :: "'n \<Rightarrow> 'n RData \<Rightarrow> 'z \<Rightarrow> bool \<times> 'z"
  catalog_of :: "'n \<Rightarrow> 'z \<Rightarrow> 'c"
  catalog_find :: "'c \<Rightarrow> 'n \<Rightarrow> bool"
  catalog_responses :: "'c \<Rightarrow> 'rq \<Rightarrow> 'rs list"
  emit_response :: "u16 \<Rightarrow> 'rs \<Rightarrow> bytes option"
  request_from_bytes :: "bytes \<Rightarrow> ipv4addr \<Rightarrow> u16 \<Rightarrow> 'rq option"
  request_is_query :: "'rq \<Rightarrow> bool"
  request_op_query :: "'rq \<Rightarrow> bool"
  request_query_name :: "'rq \<Rightarrow> 'n option"
  request_max_payload :: "'rq \<Rightarrow> u16"
  dns_default_max_payload :: u16
  dns_header_len :: nat
  packet_build :: "mac \<Rightarrow> mac \<Rightarrow> ipv4addr \<Rightarrow> ipv4addr \<Rightarrow> nat \<Rightarrow> u16 \<Rightarrow> u16 \<Rightarrow> bytes \<Rightarrow> bytes option"

section \<open>The server\<close>

definition DNS_DOMAIN :: string where
  "DNS_DOMAIN = ''internal''"

definition DNS_PORT :: u16 where
  "DNS_PORT = 53"

definition HEADERS_LEN :: nat where
  "HEADERS_LEN = 14 + 20 + 8"

record ('n, 'c) DnsServer =
  dns_domain :: 'n
  dns_catalog :: 'c

datatype 'n dns_error =
    InvalidDnsDomainPanic
  | ZoneInitFailed
  | InvalidVmName 'n
  | VmNameInUse 'n
  | AppendDomainPanic
  | RegisterFailed
  | EncodeResponseFailed
  | BuildPacketFailed

text \<open>The loop over the records; \<open>names\<close> is the set of names seen so far.\<close>

fun register_names ::
  "('n, 'z, 'c, 'rq, 'rs) dns_ops \<Rightarrow> 'n \<Rightarrow> 'n list \<Rightarrow> 'z \<Rightarrow> ('n \<times> ipv4addr) list \<Rightarrow> 'n dns_error + 'z"
where
  "register_names N domain names zone [] = Inr zone"
| "register_names N domain names zone ((name, address) # records) =
     (if name_is_fqdn N name \<or> name_num_labels N name \<noteq> 1 \<or> name_is_wildcard N name
      then Inl (InvalidVmName name)
      else if list_ex (name_eq N name) names then Inl (VmNameInUse name)
      else (case name_append_domain N name domain of
              None \<Rightarrow> Inl AppendDomainPanic
            | Some full \<Rightarrow>
                let (inserted, zone) = zone_upsert N full (RA address) zone
                in if inserted then register_names N domain (name # names) zone records
                   else Inl RegisterFailed))"

definition DnsServer_new ::
  "('n, 'z, 'c, 'rq, 'rs) dns_ops \<Rightarrow> ('n \<times> ipv4addr) list \<Rightarrow> 'n dns_error + ('n, 'c) DnsServer" where
  "DnsServer_new N records =
     (case name_from_ascii N DNS_DOMAIN of
        None \<Rightarrow> Inl InvalidDnsDomainPanic
      | Some domain \<Rightarrow>
          let domain = name_set_fqdn N domain;
              (initialized, zone) = zone_upsert N domain (RSoa domain) (zone_empty N domain)
          in if \<not> initialized then Inl ZoneInitFailed
             else and_then (register_names N domain [] zone records) (\<lambda>zone.
                    Inr \<lparr>dns_domain = domain, dns_catalog = catalog_of N domain zone\<rparr>))"

text \<open>
  \<open>send_response\<close> fills the response cell: the first encoded response stays, a failed encoding
  and a second response leave the cell as it is.
\<close>

definition send_response ::
  "('n, 'z, 'c, 'rq, 'rs) dns_ops \<Rightarrow> u16 \<Rightarrow> 'rs \<Rightarrow> bytes option \<Rightarrow> bytes option" where
  "send_response N max_payload response cell =
     (case emit_response N max_payload response of
        None \<Rightarrow> cell
      | Some bytes \<Rightarrow> (case cell of None \<Rightarrow> Some bytes | Some old \<Rightarrow> Some old))"

definition respond ::
  "('n, 'z, 'c, 'rq, 'rs) dns_ops \<Rightarrow> ('n, 'c) DnsServer \<Rightarrow> mac \<Rightarrow> mac \<Rightarrow> Ipv4Packet \<Rightarrow> UdpHeader \<Rightarrow> nat \<Rightarrow>
   'n dns_error + bytes option" where
  "respond N server source_mac destination_mac ip udp max_packet_size =
     (case request_from_bytes N (udp_payload udp) (src_addr ip) (udp_src_port udp) of
        None \<Rightarrow> Inr None
      | Some request \<Rightarrow>
          if \<not> request_is_query N request \<or> \<not> request_op_query N request then Inr None
          else (case request_query_name N request of
                  None \<Rightarrow> Inr None
                | Some name \<Rightarrow>
                    if \<not> catalog_find N (dns_catalog server) name then Inr None
                    else if max_packet_size < HEADERS_LEN then Inr None
                    else
                      let available = max_packet_size - HEADERS_LEN;
                          max_payload = min (min (unat (request_max_payload N request))
                                                 (unat (dns_default_max_payload N))) available
                      in if max_payload < dns_header_len N then Inr None
                         else (case fold (send_response N (of_nat max_payload))
                                      (catalog_responses N (dns_catalog server) request) None of
                                 None \<Rightarrow> Inl EncodeResponseFailed
                               | Some payload \<Rightarrow>
                                   (case packet_build N destination_mac source_mac (dst_addr ip) (src_addr ip) 64
                                           DNS_PORT (udp_src_port udp) payload of
                                      None \<Rightarrow> Inl BuildPacketFailed
                                    | Some bytes \<Rightarrow> Inr (Some bytes)))))"

section \<open>The laws\<close>

text \<open>An encoder honours its maximum size, and a built frame is its headers and its payload.\<close>

locale dns_api =
  fixes N :: "('n, 'z, 'c, 'rq, 'rs) dns_ops"
  assumes emit_bounded: "emit_response N m r = Some b \<Longrightarrow> length b \<le> unat m"
    and build_length: "packet_build N sm dm si di ttl sp dp payload = Some b \<Longrightarrow>
      length b = HEADERS_LEN + length payload"
begin

lemma fold_send_bounded:
  assumes "\<And>b. cell = Some b \<Longrightarrow> length b \<le> unat m"
    and "fold (send_response N m) rs cell = Some b"
  shows "length b \<le> unat m"
  using assms
proof (induction rs arbitrary: cell)
  case (Cons r rs)
  show ?case
    by (rule Cons.IH[of "send_response N m r cell"])
      (use Cons.prems emit_bounded in \<open>auto simp: send_response_def split: option.splits\<close>)
qed simp

lemma respond_frame:
  assumes "respond N server source_mac destination_mac ip udp max_packet_size = Inr (Some reply)"
  shows "\<exists>request name payload.
    request_from_bytes N (udp_payload udp) (src_addr ip) (udp_src_port udp) = Some request \<and>
    request_is_query N request \<and> request_op_query N request \<and>
    request_query_name N request = Some name \<and> catalog_find N (dns_catalog server) name \<and>
    packet_build N destination_mac source_mac (dst_addr ip) (src_addr ip) 64 DNS_PORT
      (udp_src_port udp) payload = Some reply \<and>
    length payload \<le> unat (request_max_payload N request) \<and>
    length payload \<le> unat (dns_default_max_payload N) \<and> length reply \<le> max_packet_size"
proof -
  from assms obtain request name payload where
    req: "request_from_bytes N (udp_payload udp) (src_addr ip) (udp_src_port udp) = Some request"
    "request_is_query N request" "request_op_query N request"
    "request_query_name N request = Some name" "catalog_find N (dns_catalog server) name"
    and size: "HEADERS_LEN \<le> max_packet_size"
    and pay: "fold (send_response N (of_nat (min (min (unat (request_max_payload N request))
        (unat (dns_default_max_payload N))) (max_packet_size - HEADERS_LEN))))
        (catalog_responses N (dns_catalog server) request) None = Some payload"
    and build: "packet_build N destination_mac source_mac (dst_addr ip) (src_addr ip) 64 DNS_PORT
      (udp_src_port udp) payload = Some reply"
    by (auto simp: respond_def Let_def not_less split: option.splits if_splits)
  let ?m = "min (min (unat (request_max_payload N request)) (unat (dns_default_max_payload N)))
    (max_packet_size - HEADERS_LEN)"
  have "unat (request_max_payload N request) < 2 ^ LENGTH(16)" by (rule unsigned_less)
  then have "unat (of_nat ?m :: u16) = ?m" by (simp add: unat_of_nat)
  moreover have "length payload \<le> unat (of_nat ?m :: u16)"
    by (rule fold_send_bounded[OF _ pay]) simp
  ultimately have "length payload \<le> ?m" by simp
  moreover have "length reply = HEADERS_LEN + length payload" using build by (rule build_length)
  ultimately show ?thesis using req build size by auto
qed

end

section \<open>Lemmas: registration\<close>

definition vm_name_ok :: "('n, 'z, 'c, 'rq, 'rs) dns_ops \<Rightarrow> 'n \<Rightarrow> bool" where
  "vm_name_ok N name \<longleftrightarrow> \<not> name_is_fqdn N name \<and> name_num_labels N name = 1 \<and> \<not> name_is_wildcard N name"

definition register_one ::
  "('n, 'z, 'c, 'rq, 'rs) dns_ops \<Rightarrow> 'n \<Rightarrow> 'n \<times> ipv4addr \<Rightarrow> 'z \<Rightarrow> 'z" where
  "register_one N domain = (\<lambda>(name, address) zone.
     snd (zone_upsert N (the (name_append_domain N name domain)) (RA address) zone))"

lemma register_names_Inr:
  assumes "register_names N domain names zone records = Inr zone'"
  shows "(\<forall>name \<in> fst ` set records. vm_name_ok N name \<and> \<not> list_ex (name_eq N name) names) \<and>
    sorted_wrt (\<lambda>a b. \<not> name_eq N b a) (map fst records) \<and>
    zone' = fold (register_one N domain) records zone"
  using assms
proof (induction N domain names zone records rule: register_names.induct)
  case (2 N domain names zone name address records)
  then obtain full where full: "name_append_domain N name domain = Some full"
    and ok: "vm_name_ok N name" "\<not> list_ex (name_eq N name) names"
    and ins: "fst (zone_upsert N full (RA address) zone)"
    by (auto simp: vm_name_ok_def case_prod_unfold Let_def split: if_splits option.splits)
  let ?z = "snd (zone_upsert N full (RA address) zone)"
  have "register_names N domain (name # names) ?z records = Inr zone'"
    using 2(2) full ok ins by (simp add: vm_name_ok_def case_prod_unfold Let_def)
  then have "(\<forall>n \<in> fst ` set records. vm_name_ok N n \<and> \<not> list_ex (name_eq N n) (name # names)) \<and>
      sorted_wrt (\<lambda>a b. \<not> name_eq N b a) (map fst records) \<and>
      zone' = fold (register_one N domain) records ?z"
    using 2(1)[of full "(True, ?z)" True ?z] full ok ins
    by (simp add: vm_name_ok_def prod_eq_iff)
  then show ?case using full ok by (auto simp: register_one_def)
qed simp

section \<open>A computing instance\<close>

definition ref_dns :: "(string, (string \<times> ipv4addr) list, (string \<times> ipv4addr) list, string, bytes) dns_ops" where
  "ref_dns =
     \<lparr>name_from_ascii = Some, name_set_fqdn = (\<lambda>n. n @ ''.''), name_is_fqdn = (\<lambda>n. n \<noteq> [] \<and> last n = CHR ''.''),
      name_num_labels = (\<lambda>n. length (split_on (CHR ''.'') n)), name_is_wildcard = (\<lambda>n. n = ''*''),
      name_eq = (=), name_append_domain = (\<lambda>n d. Some (n @ ''.'' @ d)),
      zone_empty = (\<lambda>_. []),
      zone_upsert = (\<lambda>n r z. (True, case r of RSoa _ \<Rightarrow> z | RA a \<Rightarrow> (n, a) # z)),
      catalog_of = (\<lambda>_ z. z), catalog_find = (\<lambda>c n. n \<in> fst ` set c),
      catalog_responses = (\<lambda>c n. case map_of c n of None \<Rightarrow> [] | Some a \<Rightarrow> [replicate 12 0 @ [ucast a]]),
      emit_response = (\<lambda>m r. Some (take (unat m) r)),
      request_from_bytes = (\<lambda>b _ _. Some (map (char_of \<circ> unat) b)),
      request_is_query = (\<lambda>_. True), request_op_query = (\<lambda>_. True), request_query_name = Some,
      request_max_payload = (\<lambda>_. 512), dns_default_max_payload = 1232, dns_header_len = 12,
      packet_build = (\<lambda>sm dm si di ttl sp dp payload. Some (replicate HEADERS_LEN 0 @ payload))\<rparr>"

interpretation ref_dns_api: dns_api ref_dns
  by unfold_locales (auto simp: ref_dns_def)

definition sample_query :: Ipv4Packet where
  "sample_query =
     \<lparr>src_addr = 2, dst_addr = 1, next_header = IpUdp, header_len = 20, more_frags = False,
      frag_offset = 0, ip_checksum_ok = True, payload_len = 20, tcp_header = None,
      udp_header = \<lparr>udp_checked = True, udp_src_port = 4000, udp_dst_port = 53, udp_len = 20,
        udp_checksum_ok = True, udp_repr_ok = True, udp_payload = map (of_nat \<circ> of_char) ''a''\<rparr>,
      icmp_header = None\<rparr>"

section \<open>Properties\<close>

text \<open>
  C32: the server starts only with usable names. Every registered VM name is a single plain label, no
  two of them are equal in the order of names, and the served zone is the initial zone with
  exactly the given addresses registered under the names in the VM domain.
\<close>

theorem dns_names_valid:
  assumes "DnsServer_new N records = Inr server"
  shows "(\<forall>name \<in> fst ` set records. vm_name_ok N name) \<and>
    sorted_wrt (\<lambda>a b. \<not> name_eq N b a) (map fst records) \<and>
    (\<exists>name. name_from_ascii N DNS_DOMAIN = Some name \<and> dns_domain server = name_set_fqdn N name) \<and>
    dns_catalog server = catalog_of N (dns_domain server)
      (fold (register_one N (dns_domain server)) records
        (snd (zone_upsert N (dns_domain server) (RSoa (dns_domain server)) (zone_empty N (dns_domain server)))))"
proof -
  from assms obtain name zone where name: "name_from_ascii N DNS_DOMAIN = Some name"
    and reg: "register_names N (name_set_fqdn N name) [] (snd (zone_upsert N (name_set_fqdn N name)
      (RSoa (name_set_fqdn N name)) (zone_empty N (name_set_fqdn N name)))) records = Inr zone"
    and server: "server = \<lparr>dns_domain = name_set_fqdn N name, dns_catalog = catalog_of N (name_set_fqdn N name) zone\<rparr>"
    by (auto simp: DnsServer_new_def Let_def case_prod_unfold result_iffs split: option.splits if_splits)
  from register_names_Inr[OF reg] show ?thesis using name server by simp
qed

theorem dns_names_valid_witness:
  "vm_name_ok ref_dns ''a'' \<and> vm_name_ok ref_dns ''b'' \<and>
   (\<exists>server. DnsServer_new ref_dns [(''a'', 2), (''b'', 3)] = Inr server)"
proof -
  obtain server where s: "DnsServer_new ref_dns [(''a'', 2), (''b'', 3)] = Inr server"
    by (simp add: DnsServer_new_def ref_dns_def Let_def and_then_def)
  with dns_names_valid[OF s] show ?thesis by simp
qed

text \<open>
  C31: a DNS answer is sent only for a well-formed query for a name of the served zone. It goes back
  to the asking VM with addresses and ports exchanged, from the DNS port, its payload respects the
  client's and the default limit (the conversion to 16 bits loses nothing), and the whole frame
  fits the interface's maximum packet size.
\<close>

theorem dns_reply_confined:
  assumes "dns_api N"
    and "respond N server source_mac destination_mac ip udp max_packet_size = Inr (Some reply)"
  shows "\<exists>request name payload.
    request_from_bytes N (udp_payload udp) (src_addr ip) (udp_src_port udp) = Some request \<and>
    request_is_query N request \<and> request_op_query N request \<and>
    request_query_name N request = Some name \<and> catalog_find N (dns_catalog server) name \<and>
    packet_build N destination_mac source_mac (dst_addr ip) (src_addr ip) 64 DNS_PORT
      (udp_src_port udp) payload = Some reply \<and>
    length payload \<le> unat (request_max_payload N request) \<and>
    length payload \<le> unat (dns_default_max_payload N) \<and> length reply \<le> max_packet_size"
  using assms(2) by (rule dns_api.respond_frame[OF assms(1)])

theorem dns_reply_confined_witness:
  "\<exists>reply. respond ref_dns \<lparr>dns_domain = ''internal.'', dns_catalog = [(''a'', 7)]\<rparr> [] [] sample_query
     (udp_header sample_query) 1500 = Inr (Some reply) \<and> length reply \<le> 1500"
proof -
  have r: "respond ref_dns \<lparr>dns_domain = ''internal.'', dns_catalog = [(''a'', 7)]\<rparr> [] []
      sample_query (udp_header sample_query) 1500 = Inr (Some (replicate 54 0 @ [7]))"
    by code_simp
  with dns_reply_confined[OF ref_dns_api.dns_api_axioms r] show ?thesis by blast
qed

end
