(* ===== verification/Vm.thy ===== *)
theory Vm
  imports Prelude
begin

text \<open>
  The VM side of a proxy (\<open>lib/vm.rs\<close>): taking over the datagram socket of a VM and telling a
  closed peer from a failure. The answers of the operating system are fields of a parameter
  record. A definition that owns descriptors returns the list of those it closed.
\<close>

section \<open>The operating system\<close>

datatype ErrorKind = ConnectionReset | NotConnected | WouldBlock | OtherErrorKind

record io_error =
  error_kind :: ErrorKind
  raw_os_error :: "int option"

record os =
  os_ENOBUFS :: int
  os_EDESTADDRREQ :: int
  os_SOCK_DGRAM :: int
  os_AF_UNIX :: int
  os_dup :: "int \<Rightarrow> io_error + int"
  os_getfd :: "int \<Rightarrow> io_error + unit"
  os_socket_type :: "int \<Rightarrow> io_error + int"
  os_sockname :: "int \<Rightarrow> io_error + (nat \<times> int)"
  os_set_nonblocking :: "int \<Rightarrow> io_error + unit"
  os_register :: "int \<Rightarrow> io_error + unit"
  os_peer_addr :: "int \<Rightarrow> io_error + unit"
  os_send :: "int \<Rightarrow> bytes \<Rightarrow> io_error + nat"

section \<open>The socket\<close>

record VM =
  sock :: int

datatype vm_error =
    NegativeDescriptor int
  | DuplicateFailed int io_error
  | InspectFailed int io_error
  | NotASocket int io_error
  | NotADatagramSocket int
  | AddressFamilyFailed int io_error
  | NotAUnixSocket int
  | VmIo io_error

definition validate_vm_fd :: "'z os_scheme \<Rightarrow> int \<Rightarrow> vm_error + unit" where
  "validate_vm_fd os vm_fd =
     and_then (map_err (InspectFailed vm_fd) (os_getfd os vm_fd)) (\<lambda>_.
       and_then (map_err (NotASocket vm_fd) (os_socket_type os vm_fd)) (\<lambda>socket_type.
         if socket_type \<noteq> os_SOCK_DGRAM os then Inl (NotADatagramSocket vm_fd)
         else and_then (map_err (AddressFamilyFailed vm_fd) (os_sockname os vm_fd)) (\<lambda>(address_len, family).
           let is_unix_socket = (address_len = 0 \<or> family = os_AF_UNIX os)
           in if \<not> is_unix_socket then Inl (NotAUnixSocket vm_fd) else Inr ())))"

definition duplicate_vm_fd :: "'z os_scheme \<Rightarrow> int \<Rightarrow> (vm_error + int) \<times> int list" where
  "duplicate_vm_fd os vm_fd =
     (if vm_fd < 0 then (Inl (NegativeDescriptor vm_fd), [])
      else (case os_dup os vm_fd of
              Inl e \<Rightarrow> (Inl (DuplicateFailed vm_fd e), [])
            | Inr duplicated_fd \<Rightarrow>
                (case validate_vm_fd os duplicated_fd of
                   Inl e \<Rightarrow> (Inl e, [duplicated_fd])
                 | Inr _ \<Rightarrow> (Inr duplicated_fd, []))))"

definition VM_new :: "'z os_scheme \<Rightarrow> int \<Rightarrow> (vm_error + VM) \<times> int list" where
  "VM_new os vm_fd =
     (case duplicate_vm_fd os vm_fd of
        (Inl e, closed) \<Rightarrow> (Inl e, closed)
      | (Inr fd, closed) \<Rightarrow>
          (case os_set_nonblocking os fd of
             Inl e \<Rightarrow> (Inl (VmIo e), closed @ [fd])
           | Inr _ \<Rightarrow>
               (case os_register os fd of
                  Inl e \<Rightarrow> (Inl (VmIo e), closed @ [fd])
                | Inr _ \<Rightarrow> (Inr \<lparr>sock = fd\<rparr>, closed))))"

definition VM_write :: "'z os_scheme \<Rightarrow> VM \<Rightarrow> bytes \<Rightarrow> io_error + nat" where
  "VM_write os vm pkt = os_send os (sock vm) pkt"

definition is_connected :: "'z os_scheme \<Rightarrow> VM \<Rightarrow> io_error + bool" where
  "is_connected os vm =
     (case os_peer_addr os (sock vm) of
        Inr _ \<Rightarrow> Inr True
      | Inl error \<Rightarrow> if error_kind error = NotConnected then Inr False else Inl error)"

definition is_disconnect :: "'z os_scheme \<Rightarrow> VM \<Rightarrow> io_error \<Rightarrow> io_error + bool" where
  "is_disconnect os vm error =
     (if error_kind error = ConnectionReset \<or> error_kind error = NotConnected
      then and_then (is_connected os vm) (\<lambda>c. Inr (\<not> c))
      else if raw_os_error error = Some (os_EDESTADDRREQ os)
      then and_then (is_connected os vm) (\<lambda>c. Inr (\<not> c))
      else Inr False)"

section \<open>Properties\<close>

text \<open>
  C40: taking over a socket leaks no descriptor. The duplicate of the caller's descriptor is either
  owned by the returned VM, and then it is a Unix datagram socket, or it has been closed exactly
  once; nothing else is closed.
\<close>

theorem vm_new_no_leak:
  "case VM_new os fd of
     (Inr vm, closed) \<Rightarrow>
       0 \<le> fd \<and> os_dup os fd = Inr (sock vm) \<and> closed = [] \<and>
       os_socket_type os (sock vm) = Inr (os_SOCK_DGRAM os) \<and>
       (\<exists>len family. os_sockname os (sock vm) = Inr (len, family) \<and> (len = 0 \<or> family = os_AF_UNIX os))
   | (Inl e, closed) \<Rightarrow>
       closed = (if 0 \<le> fd then (case os_dup os fd of Inl _ \<Rightarrow> [] | Inr d \<Rightarrow> [d]) else [])"
proof (cases "0 \<le> fd")
  case True
  show ?thesis
  proof (cases "os_dup os fd")
    case (Inr d)
    show ?thesis
    proof (cases "validate_vm_fd os d")
      case (Inr u)
      then have "os_socket_type os d = Inr (os_SOCK_DGRAM os) \<and>
          (\<exists>len family. os_sockname os d = Inr (len, family) \<and> (len = 0 \<or> family = os_AF_UNIX os))"
        by (auto simp: validate_vm_fd_def result_iffs Let_def split: if_splits)
      then show ?thesis
        using True \<open>os_dup os fd = Inr d\<close> Inr
        by (cases "os_set_nonblocking os d"; cases "os_register os d")
          (simp_all add: VM_new_def duplicate_vm_fd_def)
    qed (use True Inr in \<open>simp add: VM_new_def duplicate_vm_fd_def\<close>)
  qed (use True in \<open>simp add: VM_new_def duplicate_vm_fd_def\<close>)
qed (simp add: VM_new_def duplicate_vm_fd_def)

end
