(* ===== verification/Host_Side.thy ===== *)
theory Host_Side
  imports Prelude
begin

text \<open>
  The host side of a proxy (\<open>lib/host.rs\<close>): a \<open>vmnet\<close> interface with its packet callback. The
  answers of the framework are fields of a parameter record, or, for the read loop, the list of
  answers to successive reads.
\<close>

datatype vmnet_error = VmnetReadNothing | VmnetOther nat

record vmnet =
  vn_open :: "vmnet_error + unit"
  vn_max_packet_size :: "nat option"
  vn_read_max_packets :: "nat option"
  vn_set_callback :: "vmnet_error + unit"
  vn_write :: "bytes \<Rightarrow> vmnet_error + nat"
  vn_clear_callback :: "vmnet_error + unit"
  vn_finalize :: "vmnet_error + unit"

datatype host_error =
    InterfaceInitFailed vmnet_error
  | NoMaxPacketSize
  | NoReadMaxPackets
  | SetCallbackFailed vmnet_error
  | ClearCallbackFailed vmnet_error
  | FinalizeFailed vmnet_error

record HostSide =
  draining :: bool
  callback_can_continue :: bool
  host_vm_ip :: ipv4addr
  host_gateway_ip :: ipv4addr
  max_packet_size :: nat
  read_max_packets :: nat
  finalized :: bool

definition Host_new :: "'z vmnet_scheme \<Rightarrow> ipv4addr \<Rightarrow> ipv4addr \<Rightarrow> host_error + HostSide" where
  "Host_new vn network_gateway_ip vm_ip =
     and_then (map_err InterfaceInitFailed (vn_open vn)) (\<lambda>_.
       and_then (ok_or NoMaxPacketSize (vn_max_packet_size vn)) (\<lambda>max_size.
         and_then (ok_or NoReadMaxPackets (vn_read_max_packets vn)) (\<lambda>max_packets.
           and_then (map_err SetCallbackFailed (vn_set_callback vn)) (\<lambda>_.
             Inr \<lparr>draining = False, callback_can_continue = True, host_vm_ip = vm_ip,
                  host_gateway_ip = network_gateway_ip, max_packet_size = max_size,
                  read_max_packets = max_packets, finalized = False\<rparr>))))"

text \<open>
  The read loop over the answers of \<open>read_batch\<close>: the result once there is one, the number of
  acknowledgments to the callback, and the host. \<open>None\<close> means that the loop still waits.
\<close>

fun host_read ::
  "HostSide \<Rightarrow> (vmnet_error + nat) list \<Rightarrow> (vmnet_error + nat) option \<times> nat \<times> HostSide" where
  "host_read host [] = (None, 0, host)"
| "host_read host (answer # answers) =
     (let host = host\<lparr>draining := True\<rparr>
      in if answer = Inl VmnetReadNothing
         then (let (result, acks, host') = host_read (host\<lparr>draining := False\<rparr>) answers
               in (result, acks + (if callback_can_continue host then 1 else 0), host'))
         else (Some answer, 0, host))"

definition Host_write :: "'z vmnet_scheme \<Rightarrow> bytes \<Rightarrow> vmnet_error + nat" where
  "Host_write vn buf = vn_write vn buf"

text \<open>Stopping the interface; the flag says whether the interface was touched.\<close>

definition Host_finalize ::
  "'z vmnet_scheme \<Rightarrow> HostSide \<Rightarrow> (host_error + unit) \<times> HostSide \<times> bool" where
  "Host_finalize vn host =
     (if finalized host then (Inr (), host, False)
      else
        let clear_result = vn_clear_callback vn;
            host = host\<lparr>callback_can_continue := False\<rparr>;
            stop_result = vn_finalize vn;
            host = host\<lparr>finalized := (case stop_result of Inr _ \<Rightarrow> True | Inl _ \<Rightarrow> False)\<rparr>
        in (and_then (map_err ClearCallbackFailed clear_result) (\<lambda>_.
              map_err FinalizeFailed stop_result), host, True))"

text \<open>Dropping a host stops its interface once more unless it has stopped already.\<close>

definition Host_drop :: "'z vmnet_scheme \<Rightarrow> HostSide \<Rightarrow> HostSide" where
  "Host_drop vn host = (if \<not> finalized host then (let (_, host, _) = Host_finalize vn host in host) else host)"

section \<open>Properties\<close>

text \<open>
  A read returns the first answer that is not an empty read. Every empty read before it has
  acknowledged the callback once, and the host stays in its draining state exactly when it returns.
\<close>

theorem host_read_drains:
  "host_read host answers =
     (let empty = takeWhile (\<lambda>a. a = Inl VmnetReadNothing) answers;
          rest = dropWhile (\<lambda>a. a = Inl VmnetReadNothing) answers;
          acks = (if callback_can_continue host then length empty else 0)
      in case rest of
           r # _ \<Rightarrow> (Some r, acks, host\<lparr>draining := True\<rparr>)
         | [] \<Rightarrow> (None, acks, if empty = [] then host else host\<lparr>draining := False\<rparr>))"
proof (induction answers arbitrary: host)
  case (Cons a answers)
  show ?case
  proof (cases "a = Inl VmnetReadNothing")
    case True
    then show ?thesis
      by (cases "dropWhile (\<lambda>a. a = Inl VmnetReadNothing) answers")
        (simp_all add: Cons.IH Let_def del: dropWhile_eq_Nil_conv)
  qed (simp add: Let_def)
qed simp

text \<open>
  Finalizing twice is safe. Once an interface is stopped, further calls succeed without
  touching it; a call that fails to stop it leaves it open for another attempt; and the callback
  is released in every case.
\<close>

theorem host_finalize_idempotent:
  "let (result, host', touched) = Host_finalize vn host
   in touched = (\<not> finalized host) \<and>
      finalized host' = (finalized host \<or> (\<exists>u. vn_finalize vn = Inr u)) \<and>
      (touched \<longrightarrow> \<not> callback_can_continue host') \<and>
      (finalized host' \<longrightarrow> Host_finalize vn host' = (Inr (), host', False))"
  by (cases "vn_finalize vn") (auto simp: Host_finalize_def Let_def)

theorem host_finalize_idempotent_witness:
  "let vn = \<lparr>vn_open = Inr (), vn_max_packet_size = Some 1514, vn_read_max_packets = Some 32,
        vn_set_callback = Inr (), vn_write = (\<lambda>b. Inr (length b)),
        vn_clear_callback = Inl (VmnetOther 1), vn_finalize = Inr ()\<rparr>;
       host = \<lparr>draining = True, callback_can_continue = True, host_vm_ip = 2, host_gateway_ip = 1,
        max_packet_size = 1514, read_max_packets = 32, finalized = False\<rparr>;
       (result, host', touched) = Host_finalize vn host
   in result = Inl (ClearCallbackFailed (VmnetOther 1)) \<and> Host_finalize vn host' = (Inr (), host', False)"
  using host_finalize_idempotent[of
      "\<lparr>vn_open = Inr (), vn_max_packet_size = Some 1514, vn_read_max_packets = Some 32,
        vn_set_callback = Inr (), vn_write = (\<lambda>b. Inr (length b)),
        vn_clear_callback = Inl (VmnetOther 1), vn_finalize = Inr ()\<rparr>"
      "\<lparr>draining = True, callback_can_continue = True, host_vm_ip = 2, host_gateway_ip = 1,
        max_packet_size = 1514, read_max_packets = 32, finalized = False\<rparr>"]
  by (simp add: Host_finalize_def Let_def)

end
