(* ===== verification/Proxy.thy ===== *)
theory Proxy
  imports Rules Flows Dhcp_Server Dns_Server Vm Host_Side
begin

text \<open>
  The packet proxy of one VM (\<open>lib/proxy/mod.rs\<close>, \<open>lib/proxy/vm.rs\<close>, \<open>lib/proxy/host.rs\<close>): the
  decisions on frames in both directions, policy replacement, and the select loop as handlers of
  its branches. An operation returns its result, the proxy after it, and the frames it handed to
  the two sockets, in order. Third-party code and the operating system are the parameter record
  \<open>env\<close>; a definition that reads the clock takes the reading \<open>now\<close>.
\<close>

section \<open>State\<close>

record ('p, 'm, 'n, 'msg, 'z, 'c, 'rq, 'rs) env =
  env_policy :: "('p, 'm) policy_ext"
  env_dhcp :: "('n, 'msg) dhcp_ops"
  env_dns :: "('n, 'z, 'c, 'rq, 'rs) dns_ops"
  env_is_global :: "ipv4addr \<Rightarrow> bool"
  env_os :: os
  env_vmnet :: vmnet

record ('m, 'n, 'c) Proxy =
  px_vm :: VM
  px_host :: HostSide
  vm_mac_address :: mac
  peer_ips :: "ipv4addr list"
  dhcp_server :: "'n DhcpServer"
  dns_server :: "('n, 'c) DnsServer option"
  px_rules :: "'m Rules"
  px_allow :: "Rule list"
  px_block :: "Rule list"
  px_flows :: "FlowTable option"
  enobufs_encountered :: bool

record Policy =
  pol_allow :: "Rule list"
  pol_block :: "Rule list"
  rule_count :: nat

datatype proxy_output = ToVm bytes | ToHost bytes

datatype proxy_error =
    VmWriteFailed io_error
  | HostWriteFailed vmnet_error
  | VmReadFailed io_error
  | VmStateFailed io_error
  | HostReadFailed vmnet_error

type_synonym ('r, 'm, 'n, 'c) proxy_result = "'r \<times> ('m, 'n, 'c) Proxy \<times> proxy_output list"

section \<open>Policy\<close>

definition normalize_rules :: "'z ipnet_ops_scheme \<Rightarrow> Rule list \<Rightarrow> Rule list" where
  "normalize_rules I rules = dedup (sort_key (Rule_to_string I) (map (Rule_normalized I) rules))"

definition new_flows :: "'m Rules \<Rightarrow> Instant \<Rightarrow> FlowTable option" where
  "new_flows rules now = (if has_stateful rules then Some (FlowTable_new now) else None)"

definition Proxy_new ::
  "('p, 'm, 'n, 'msg, 'z, 'c, 'rq, 'rs) env \<Rightarrow> VM \<Rightarrow> mac \<Rightarrow> ipv4addr \<Rightarrow> ipv4addr \<Rightarrow> ipv4addr \<Rightarrow> ipv4addr list \<Rightarrow>
   Rule list \<Rightarrow> Rule list \<Rightarrow> ('n, 'c) DnsServer option \<Rightarrow> Instant \<Rightarrow> host_error + ('m, 'n, 'c) Proxy" where
  "Proxy_new env vm vm_mac vm_ip network_gateway_ip network_netmask network_vm_ips allow block dns now =
     (let E = env_policy env;
          allow = normalize_rules E allow;
          block = normalize_rules E block
      in and_then (Host_new (env_vmnet env) network_gateway_ip vm_ip) (\<lambda>host.
           let peers = filter (\<lambda>peer_ip. peer_ip \<noteq> vm_ip) network_vm_ips;
               rules = Rules_new E (host_gateway_ip host) peers allow block;
               flows = new_flows rules now;
               dhcp = DhcpServer_new vm_mac (host_vm_ip host) network_netmask (host_gateway_ip host)
                        (case dns of None \<Rightarrow> [] | Some server \<Rightarrow> [dns_domain server])
           in Inr \<lparr>px_vm = vm, px_host = host, vm_mac_address = vm_mac, peer_ips = peers,
                  dhcp_server = dhcp, dns_server = dns, px_rules = rules, px_allow = allow,
                  px_block = block, px_flows = flows, enobufs_encountered = False\<rparr>))"

definition policy_get ::
  "('p, 'm, 'n, 'msg, 'z, 'c, 'rq, 'rs) env \<Rightarrow> ('m, 'n, 'c) Proxy \<Rightarrow> Policy" where
  "policy_get env proxy =
     \<lparr>pol_allow = px_allow proxy, pol_block = px_block proxy,
      rule_count = Rules_len (env_policy env) (px_rules proxy)\<rparr>"

definition policy_set ::
  "('p, 'm, 'n, 'msg, 'z, 'c, 'rq, 'rs) env \<Rightarrow> ('m, 'n, 'c) Proxy \<Rightarrow> Rule list \<Rightarrow> Rule list \<Rightarrow> Instant \<Rightarrow>
   Policy \<times> ('m, 'n, 'c) Proxy" where
  "policy_set env proxy allow block now =
     (let E = env_policy env;
          allow = normalize_rules E allow;
          block = normalize_rules E block;
          proxy =
            (if px_allow proxy \<noteq> allow \<or> px_block proxy \<noteq> block
             then (let rules = Rules_new E (host_gateway_ip (px_host proxy)) (peer_ips proxy) allow block
                   in proxy\<lparr>px_rules := rules, px_allow := allow, px_block := block,
                            px_flows := new_flows rules now\<rparr>)
             else proxy)
      in (policy_get env proxy, proxy))"

section \<open>Admission\<close>

definition admit_with_tracking ::
  "('m, 'n, 'c) Proxy \<Rightarrow> PendingFlow \<Rightarrow> bool \<times> ('m, 'n, 'c) Proxy" where
  "admit_with_tracking proxy pending =
     (case px_flows proxy of
        None \<Rightarrow> (False, proxy)
      | Some table \<Rightarrow>
          (let (ok, table) = commit table pending in (ok, proxy\<lparr>px_flows := Some table\<rparr>)))"

definition admit_with_tracking_if_trackable ::
  "('m, 'n, 'c) Proxy \<Rightarrow> PendingFlow option \<Rightarrow> bool \<times> ('m, 'n, 'c) Proxy" where
  "admit_with_tracking_if_trackable proxy pending =
     (case pending of Some p \<Rightarrow> admit_with_tracking proxy p | None \<Rightarrow> (True, proxy))"

definition admit_with_tracking_if_stateful ::
  "('p, 'm, 'n, 'msg, 'z, 'c, 'rq, 'rs) env \<Rightarrow> ('m, 'n, 'c) Proxy \<Rightarrow> PendingFlow option \<Rightarrow> Ipv4Packet \<Rightarrow>
   Direction \<Rightarrow> bool \<times> ('m, 'n, 'c) Proxy" where
  "admit_with_tracking_if_stateful env proxy pending pkt return_direction =
     (if is_stateful (env_policy env) (px_rules proxy) pkt return_direction
      then admit_with_tracking_if_trackable proxy pending else (True, proxy))"

section \<open>Writing to the VM\<close>

definition write_to_vm ::
  "('p, 'm, 'n, 'msg, 'z, 'c, 'rq, 'rs) env \<Rightarrow> ('m, 'n, 'c) Proxy \<Rightarrow> bytes \<Rightarrow>
   (proxy_error + unit, 'm, 'n, 'c) proxy_result" where
  "write_to_vm env proxy packet =
     (case VM_write (env_os env) (px_vm proxy) packet of
        Inr _ \<Rightarrow> (Inr (), proxy, [ToVm packet])
      | Inl err \<Rightarrow>
          if raw_os_error err = Some (os_ENOBUFS (env_os env))
          then (Inr (), proxy\<lparr>enobufs_encountered := True\<rparr>, [ToVm packet])
          else (Inl (VmWriteFailed err), proxy, [ToVm packet]))"

section \<open>Frames from the VM\<close>

definition IPV4_HEADER_LEN_WITHOUT_OPTIONS :: u8 where
  "IPV4_HEADER_LEN_WITHOUT_OPTIONS = 20"

definition vm_arp_allowed :: "ArpRepr option \<Rightarrow> mac \<Rightarrow> ipv4addr \<Rightarrow> bool" where
  "vm_arp_allowed arp mac address =
     (case arp of
        Some (EthernetIpv4 operation hardware_addr protocol_addr) \<Rightarrow>
          (operation = ArpRequest \<or> operation = ArpReply) \<and> hardware_addr = mac \<and>
          (protocol_addr = address \<or> is_unspecified protocol_addr)
      | _ \<Rightarrow> False)"

definition allowed_from_vm_arp :: "('m, 'n, 'c) Proxy \<Rightarrow> ArpRepr option \<Rightarrow> bool" where
  "allowed_from_vm_arp proxy arp = vm_arp_allowed arp (vm_mac_address proxy) (host_vm_ip (px_host proxy))"

text \<open>Failures to build or send a reply are reported and otherwise ignored.\<close>

definition consume_dhcp ::
  "('p, 'm, 'n, 'msg, 'z, 'c, 'rq, 'rs) env \<Rightarrow> ('m, 'n, 'c) Proxy \<Rightarrow> Ipv4Packet \<Rightarrow>
   (bool, 'm, 'n, 'c) proxy_result" where
  "consume_dhcp env proxy pkt =
     (if next_header pkt \<noteq> IpUdp \<or> frag_offset pkt \<noteq> 0 \<or> payload_len pkt < 4 then (False, proxy, [])
      else if udp_dst_port (udp_header pkt) \<noteq> SERVER_PORT then (False, proxy, [])
      else (case receive_vm (env_dhcp env) (dhcp_server proxy) pkt (udp_header pkt) of
              Inr (Some reply) \<Rightarrow>
                (let (_, proxy, out) = write_to_vm env proxy reply in (True, proxy, out))
            | Inr None \<Rightarrow> (True, proxy, [])
            | Inl _ \<Rightarrow> (True, proxy, [])))"

definition consume_dns ::
  "('p, 'm, 'n, 'msg, 'z, 'c, 'rq, 'rs) env \<Rightarrow> ('m, 'n, 'c) Proxy \<Rightarrow> mac \<Rightarrow> Ipv4Packet \<Rightarrow>
   (bool, 'm, 'n, 'c) proxy_result" where
  "consume_dns env proxy destination_mac pkt =
     (case dns_server proxy of
        None \<Rightarrow> (False, proxy, [])
      | Some server \<Rightarrow>
          if dst_addr pkt \<noteq> host_gateway_ip (px_host proxy) \<or> \<not> ip_checksum_ok pkt \<or> next_header pkt \<noteq> IpUdp \<or>
             more_frags pkt \<or> frag_offset pkt \<noteq> 0
          then (False, proxy, [])
          else if \<not> udp_checked (udp_header pkt) then (False, proxy, [])
          else if \<not> udp_checksum_ok (udp_header pkt) \<or> udp_dst_port (udp_header pkt) \<noteq> DNS_PORT \<or>
                  unat (udp_len (udp_header pkt)) \<noteq> payload_len pkt
          then (False, proxy, [])
          else (case respond (env_dns env) server (vm_mac_address proxy) destination_mac pkt (udp_header pkt)
                       (max_packet_size (px_host proxy)) of
                  Inr (Some reply) \<Rightarrow>
                    (let (_, proxy, out) = write_to_vm env proxy reply in (True, proxy, out))
                | Inr None \<Rightarrow> (False, proxy, [])
                | Inl _ \<Rightarrow> (True, proxy, [])))"

text \<open>The flow table consulted for a packet from the VM; without a table it is untracked.\<close>

definition inspect_flows ::
  "('m, 'n, 'c) Proxy \<Rightarrow> Ipv4Packet \<Rightarrow> FlowDirection \<Rightarrow> Instant \<Rightarrow> FlowMatch \<times> ('m, 'n, 'c) Proxy" where
  "inspect_flows proxy pkt direction now =
     (case px_flows proxy of
        None \<Rightarrow> (Untracked, proxy)
      | Some table \<Rightarrow>
          (let (m, table) = inspect_at table pkt direction now in (m, proxy\<lparr>px_flows := Some table\<rparr>)))"

definition outbound_decision ::
  "('p, 'm, 'n, 'msg, 'z, 'c, 'rq, 'rs) env \<Rightarrow> ('m, 'n, 'c) Proxy \<Rightarrow> PendingFlow option \<Rightarrow> Ipv4Packet \<Rightarrow>
   bool \<times> ('m, 'n, 'c) Proxy" where
  "outbound_decision env proxy pending pkt =
     (case policy_decision (env_policy env) (px_rules proxy) pkt Out of
        Some DecisionBlock \<Rightarrow> (False, proxy)
      | Some AllowStateless \<Rightarrow> admit_with_tracking_if_stateful env proxy pending pkt In
      | Some AllowStateful \<Rightarrow>
          (case pending of None \<Rightarrow> (False, proxy) | Some p \<Rightarrow> admit_with_tracking proxy p)
      | None \<Rightarrow>
          if env_is_global env (dst_addr pkt) then admit_with_tracking_if_trackable proxy pending
          else if dst_addr pkt = host_gateway_ip (px_host proxy)
          then admit_with_tracking_if_trackable proxy pending
          else (False, proxy))"

definition allowed_from_vm_ipv4 ::
  "('p, 'm, 'n, 'msg, 'z, 'c, 'rq, 'rs) env \<Rightarrow> ('m, 'n, 'c) Proxy \<Rightarrow> mac \<Rightarrow> Ipv4Packet \<Rightarrow> Instant \<Rightarrow>
   (bool, 'm, 'n, 'c) proxy_result" where
  "allowed_from_vm_ipv4 env proxy destination_mac pkt now =
     (case consume_dhcp env proxy pkt of
        (True, proxy, out) \<Rightarrow> (False, proxy, out)
      | (False, proxy, out) \<Rightarrow>
          if host_vm_ip (px_host proxy) = src_addr pkt
          then (case consume_dns env proxy destination_mac pkt of
                  (True, proxy, out') \<Rightarrow> (False, proxy, out @ out')
                | (False, proxy, out') \<Rightarrow>
                    (case inspect_flows proxy pkt FromVm now of
                       (Allowed, proxy) \<Rightarrow> (True, proxy, out @ out')
                     | (Denied, proxy) \<Rightarrow> (False, proxy, out @ out')
                     | (Candidate pending, proxy) \<Rightarrow>
                         (let (ok, proxy) = outbound_decision env proxy (Some pending) pkt
                          in (ok, proxy, out @ out'))
                     | (Untracked, proxy) \<Rightarrow>
                         (let (ok, proxy) = outbound_decision env proxy None pkt
                          in (ok, proxy, out @ out'))))
          else (False, proxy, out))"

definition allowed_from_vm ::
  "('p, 'm, 'n, 'msg, 'z, 'c, 'rq, 'rs) env \<Rightarrow> ('m, 'n, 'c) Proxy \<Rightarrow> EthernetFrame \<Rightarrow> Instant \<Rightarrow>
   (bool, 'm, 'n, 'c) proxy_result" where
  "allowed_from_vm env proxy frame now =
     (if frame_src frame \<noteq> vm_mac_address proxy then (False, proxy, [])
      else (case frame_ethertype frame of
              EtherArp \<Rightarrow>
                (case frame_arp frame of
                   None \<Rightarrow> (False, proxy, [])
                 | Some arp \<Rightarrow> (allowed_from_vm_arp proxy arp, proxy, []))
            | EtherIpv4 \<Rightarrow>
                if \<not> frame_ipv4_valid frame then (False, proxy, [])
                else if header_len (frame_ipv4 frame) \<noteq> IPV4_HEADER_LEN_WITHOUT_OPTIONS then (False, proxy, [])
                else allowed_from_vm_ipv4 env proxy (frame_dst frame) (frame_ipv4 frame) now
            | EtherOther _ \<Rightarrow> (False, proxy, [])))"

definition process_frame_from_vm ::
  "('p, 'm, 'n, 'msg, 'z, 'c, 'rq, 'rs) env \<Rightarrow> ('m, 'n, 'c) Proxy \<Rightarrow> EthernetFrame \<Rightarrow> Instant \<Rightarrow>
   (proxy_error + unit, 'm, 'n, 'c) proxy_result" where
  "process_frame_from_vm env proxy frame now =
     (case allowed_from_vm env proxy frame now of
        (False, proxy, out) \<Rightarrow> (Inr (), proxy, out)
      | (True, proxy, out) \<Rightarrow>
          (case Host_write (env_vmnet env) (frame_bytes frame) of
             Inr _ \<Rightarrow> (Inr (), proxy, out @ [ToHost (frame_bytes frame)])
           | Inl e \<Rightarrow> (Inl (HostWriteFailed e), proxy, out @ [ToHost (frame_bytes frame)])))"

section \<open>Frames from the host\<close>

definition inbound_decision ::
  "('p, 'm, 'n, 'msg, 'z, 'c, 'rq, 'rs) env \<Rightarrow> ('m, 'n, 'c) Proxy \<Rightarrow> PendingFlow option \<Rightarrow> Ipv4Packet \<Rightarrow>
   bool \<times> ('m, 'n, 'c) Proxy" where
  "inbound_decision env proxy pending pkt =
     (case policy_decision (env_policy env) (px_rules proxy) pkt In of
        Some DecisionBlock \<Rightarrow> (False, proxy)
      | Some AllowStateless \<Rightarrow> (False, proxy)
      | Some AllowStateful \<Rightarrow>
          (case pending of None \<Rightarrow> (False, proxy) | Some p \<Rightarrow> admit_with_tracking proxy p)
      | None \<Rightarrow> admit_with_tracking_if_stateful env proxy pending pkt Out)"

definition allowed_from_host_ipv4 ::
  "('p, 'm, 'n, 'msg, 'z, 'c, 'rq, 'rs) env \<Rightarrow> ('m, 'n, 'c) Proxy \<Rightarrow> Ipv4Packet \<Rightarrow> Instant \<Rightarrow>
   bool \<times> ('m, 'n, 'c) Proxy" where
  "allowed_from_host_ipv4 env proxy pkt now =
     (if next_header pkt = IpUdp \<and> frag_offset pkt = 0 \<and> 4 \<le> payload_len pkt \<and>
         udp_src_port (udp_header pkt) = SERVER_PORT \<and> udp_dst_port (udp_header pkt) = CLIENT_PORT
      then (False, proxy)
      else if px_flows proxy = None then (True, proxy)
      else if host_vm_ip (px_host proxy) = dst_addr pkt
      then (case inspect_flows proxy pkt FromHost now of
              (Allowed, proxy) \<Rightarrow> (True, proxy)
            | (Denied, proxy) \<Rightarrow> (False, proxy)
            | (Candidate pending, proxy) \<Rightarrow> inbound_decision env proxy (Some pending) pkt
            | (Untracked, proxy) \<Rightarrow> inbound_decision env proxy None pkt)
      else inbound_decision env proxy None pkt)"

definition allowed_from_host ::
  "('p, 'm, 'n, 'msg, 'z, 'c, 'rq, 'rs) env \<Rightarrow> ('m, 'n, 'c) Proxy \<Rightarrow> EthernetFrame \<Rightarrow> Instant \<Rightarrow>
   bool \<times> ('m, 'n, 'c) Proxy" where
  "allowed_from_host env proxy frame now =
     (case frame_ethertype frame of
        EtherArp \<Rightarrow> (True, proxy)
      | EtherIpv4 \<Rightarrow>
          if \<not> frame_ipv4_valid frame then (False, proxy)
          else allowed_from_host_ipv4 env proxy (frame_ipv4 frame) now
      | EtherOther _ \<Rightarrow> (False, proxy))"

definition process_frame_from_host ::
  "('p, 'm, 'n, 'msg, 'z, 'c, 'rq, 'rs) env \<Rightarrow> ('m, 'n, 'c) Proxy \<Rightarrow> EthernetFrame \<Rightarrow> Instant \<Rightarrow>
   (proxy_error + unit, 'm, 'n, 'c) proxy_result" where
  "process_frame_from_host env proxy frame now =
     (case allowed_from_host env proxy frame now of
        (False, proxy) \<Rightarrow> (Inr (), proxy, [])
      | (True, proxy) \<Rightarrow> write_to_vm env proxy (frame_bytes frame))"

section \<open>The select loop\<close>

text \<open>
  One handler per branch of the loop. What the sockets return is part of the event: an error, or a
  buffer that parses as a frame or does not. \<open>None\<close> as the exit means that the loop goes on.
\<close>

datatype loop_exit = ExitOk | ExitErr proxy_error

datatype Command = PolicyGet | PolicySet "Rule list" "Rule list"

definition vm_read_error ::
  "('p, 'm, 'n, 'msg, 'z, 'c, 'rq, 'rs) env \<Rightarrow> ('m, 'n, 'c) Proxy \<Rightarrow> io_error \<Rightarrow> proxy_error \<Rightarrow> loop_exit" where
  "vm_read_error env proxy error otherwise =
     (case is_disconnect (env_os env) (px_vm proxy) error of
        Inl e \<Rightarrow> ExitErr (VmStateFailed e)
      | Inr disconnected \<Rightarrow> if disconnected then ExitOk else ExitErr otherwise)"

definition vm_frame ::
  "('p, 'm, 'n, 'msg, 'z, 'c, 'rq, 'rs) env \<Rightarrow> ('m, 'n, 'c) Proxy \<Rightarrow> EthernetFrame option \<Rightarrow> Instant \<Rightarrow>
   (loop_exit option, 'm, 'n, 'c) proxy_result" where
  "vm_frame env proxy frame now =
     (case frame of
        None \<Rightarrow> (None, proxy, [])
      | Some frame \<Rightarrow>
          (case process_frame_from_vm env proxy frame now of
             (Inr _, proxy, out) \<Rightarrow> (None, proxy, out)
           | (Inl e, proxy, out) \<Rightarrow> (Some (ExitErr e), proxy, out)))"

fun vm_burst ::
  "('p, 'm, 'n, 'msg, 'z, 'c, 'rq, 'rs) env \<Rightarrow> ('m, 'n, 'c) Proxy \<Rightarrow>
   ((io_error + EthernetFrame option) \<times> Instant) list \<Rightarrow> (loop_exit option, 'm, 'n, 'c) proxy_result" where
  "vm_burst env proxy [] = (None, proxy, [])"
| "vm_burst env proxy ((result, now) # reads) =
     (case result of
        Inr frame \<Rightarrow>
          (case vm_frame env proxy frame now of
             (None, proxy, out) \<Rightarrow>
               (let (exit, proxy, out') = vm_burst env proxy reads in (exit, proxy, out @ out'))
           | (Some exit, proxy, out) \<Rightarrow> (Some exit, proxy, out))
      | Inl err \<Rightarrow>
          if error_kind err = WouldBlock then (None, proxy, [])
          else (Some (vm_read_error env proxy err (VmReadFailed err)), proxy, []))"

definition on_vm_readable ::
  "('p, 'm, 'n, 'msg, 'z, 'c, 'rq, 'rs) env \<Rightarrow> ('m, 'n, 'c) Proxy \<Rightarrow>
   (io_error + EthernetFrame option) \<Rightarrow> Instant \<Rightarrow> ((io_error + EthernetFrame option) \<times> Instant) list \<Rightarrow>
   (loop_exit option, 'm, 'n, 'c) proxy_result" where
  "on_vm_readable env proxy result now queued =
     (case result of
        Inl err \<Rightarrow> (Some (vm_read_error env proxy err (VmReadFailed err)), proxy, [])
      | Inr frame \<Rightarrow>
          (case vm_frame env proxy frame now of
             (Some exit, proxy, out) \<Rightarrow> (Some exit, proxy, out)
           | (None, proxy, out) \<Rightarrow>
               (let (exit, proxy, out') = vm_burst env proxy (take 127 queued) in (exit, proxy, out @ out'))))"

fun host_frames ::
  "('p, 'm, 'n, 'msg, 'z, 'c, 'rq, 'rs) env \<Rightarrow> ('m, 'n, 'c) Proxy \<Rightarrow> Instant \<Rightarrow> EthernetFrame option list \<Rightarrow>
   (loop_exit option, 'm, 'n, 'c) proxy_result" where
  "host_frames env proxy now [] = (None, proxy, [])"
| "host_frames env proxy now (None # frames) = host_frames env proxy now frames"
| "host_frames env proxy now (Some frame # frames) =
     (case process_frame_from_host env proxy frame now of
        (Inr _, proxy, out) \<Rightarrow>
          (let (exit, proxy, out') = host_frames env proxy now frames in (exit, proxy, out @ out'))
      | (Inl error, proxy, out) \<Rightarrow>
          (case error of
             VmWriteFailed io_error \<Rightarrow> (Some (vm_read_error env proxy io_error error), proxy, out)
           | _ \<Rightarrow> (Some (ExitErr error), proxy, out)))"

definition on_host_readable ::
  "('p, 'm, 'n, 'msg, 'z, 'c, 'rq, 'rs) env \<Rightarrow> ('m, 'n, 'c) Proxy \<Rightarrow>
   (vmnet_error + EthernetFrame option list) \<Rightarrow> Instant \<Rightarrow> (loop_exit option, 'm, 'n, 'c) proxy_result" where
  "on_host_readable env proxy result now =
     (case result of
        Inl e \<Rightarrow> (Some (ExitErr (HostReadFailed e)), proxy, [])
      | Inr frames \<Rightarrow> host_frames env proxy now frames)"

definition on_command ::
  "('p, 'm, 'n, 'msg, 'z, 'c, 'rq, 'rs) env \<Rightarrow> ('m, 'n, 'c) Proxy \<Rightarrow> Command option \<Rightarrow> Instant \<Rightarrow>
   loop_exit option \<times> ('m, 'n, 'c) Proxy \<times> Policy option" where
  "on_command env proxy command now =
     (case command of
        Some PolicyGet \<Rightarrow> (None, proxy, Some (policy_get env proxy))
      | Some (PolicySet allow block) \<Rightarrow>
          (let (policy, proxy) = policy_set env proxy allow block now in (None, proxy, Some policy))
      | None \<Rightarrow> (Some ExitOk, proxy, None))"

definition on_maintenance ::
  "('p, 'm, 'n, 'msg, 'z, 'c, 'rq, 'rs) env \<Rightarrow> ('m, 'n, 'c) Proxy \<Rightarrow> loop_exit option" where
  "on_maintenance env proxy =
     (case is_connected (env_os env) (px_vm proxy) of
        Inl e \<Rightarrow> Some (ExitErr (VmStateFailed e))
      | Inr connected \<Rightarrow> if \<not> connected then Some ExitOk else None)"

datatype loop_event =
    VmReadable "io_error + EthernetFrame option" Instant "((io_error + EthernetFrame option) \<times> Instant) list"
  | HostReadable "vmnet_error + EthernetFrame option list" Instant
  | CommandReceived "Command option" Instant
  | MaintenanceTick

definition select_branch ::
  "('p, 'm, 'n, 'msg, 'z, 'c, 'rq, 'rs) env \<Rightarrow> ('m, 'n, 'c) Proxy \<Rightarrow> loop_event \<Rightarrow>
   (loop_exit option, 'm, 'n, 'c) proxy_result" where
  "select_branch env proxy event =
     (case event of
        VmReadable result now queued \<Rightarrow> on_vm_readable env proxy result now queued
      | HostReadable result now \<Rightarrow> on_host_readable env proxy result now
      | CommandReceived command now \<Rightarrow>
          (let (exit, proxy, _) = on_command env proxy command now in (exit, proxy, []))
      | MaintenanceTick \<Rightarrow> (on_maintenance env proxy, proxy, []))"

fun run_proxy ::
  "('p, 'm, 'n, 'msg, 'z, 'c, 'rq, 'rs) env \<Rightarrow> ('m, 'n, 'c) Proxy \<Rightarrow> loop_event list \<Rightarrow>
   (loop_exit option, 'm, 'n, 'c) proxy_result" where
  "run_proxy env proxy [] = (None, proxy, [])"
| "run_proxy env proxy (event # events) =
     (case select_branch env proxy event of
        (Some exit, proxy, out) \<Rightarrow> (Some exit, proxy, out)
      | (None, proxy, out) \<Rightarrow>
          (let (exit, proxy, out') = run_proxy env proxy events in (exit, proxy, out @ out')))"

end
