(* ===== verification/Proxy_Safety.thy ===== *)
theory Proxy_Safety
  imports Proxy
begin

text \<open>
  Correctness of the packet proxy: its invariant, what may leave the VM and what may reach it, how
  flows tie the two directions together, and policy replacement.
\<close>

section \<open>Invariant and specification\<close>

text \<open>
  The compiled rules are those of the stored normalized lists, a flow table exists exactly for
  policies with stateful rules and is well formed, and the DHCP server serves this VM.
\<close>

definition proxy_wf ::
  "('p, 'm, 'n, 'msg, 'z, 'c, 'rq, 'rs) env \<Rightarrow> ('m, 'n, 'c) Proxy \<Rightarrow> bool" where
  "proxy_wf env proxy \<longleftrightarrow>
     px_rules proxy = Rules_new (env_policy env) (host_gateway_ip (px_host proxy)) (peer_ips proxy)
       (px_allow proxy) (px_block proxy) \<and>
     (px_flows proxy = None \<longleftrightarrow> \<not> has_stateful (px_rules proxy)) \<and>
     (\<forall>table. px_flows proxy = Some table \<longrightarrow> flow_table_wf table) \<and>
     dhcp_vm_mac (dhcp_server proxy) = vm_mac_address proxy \<and>
     dhcp_vm_ip (dhcp_server proxy) = host_vm_ip (px_host proxy) \<and>
     dhcp_gateway_ip (dhcp_server proxy) = host_gateway_ip (px_host proxy)"

definition is_return_traffic ::
  "('m, 'n, 'c) Proxy \<Rightarrow> Ipv4Packet \<Rightarrow> FlowDirection \<Rightarrow> Instant \<Rightarrow> bool" where
  "is_return_traffic proxy pkt d now =
     (case px_flows proxy of None \<Rightarrow> False | Some table \<Rightarrow> return_traffic table pkt d now)"

text \<open>The outbound policy with its built-in fallbacks.\<close>

definition outbound_permitted ::
  "('p, 'm, 'n, 'msg, 'z, 'c, 'rq, 'rs) env \<Rightarrow> ('m, 'n, 'c) Proxy \<Rightarrow> Ipv4Packet \<Rightarrow> bool" where
  "outbound_permitted env proxy pkt =
     (case policy_decision (env_policy env) (px_rules proxy) pkt Out of
        Some DecisionBlock \<Rightarrow> False
      | Some _ \<Rightarrow> True
      | None \<Rightarrow> env_is_global env (dst_addr pkt) \<or> dst_addr pkt = host_gateway_ip (px_host proxy))"

definition inbound_permitted ::
  "('p, 'm, 'n, 'msg, 'z, 'c, 'rq, 'rs) env \<Rightarrow> ('m, 'n, 'c) Proxy \<Rightarrow> Ipv4Packet \<Rightarrow> bool" where
  "inbound_permitted env proxy pkt \<longleftrightarrow>
     policy_decision (env_policy env) (px_rules proxy) pkt In \<in> {None, Some AllowStateful}"

text \<open>A packet that only a DHCP server sends, and one that only a DHCP server receives.\<close>

definition from_dhcp_server :: "Ipv4Packet \<Rightarrow> bool" where
  "from_dhcp_server pkt \<longleftrightarrow>
     next_header pkt = IpUdp \<and> frag_offset pkt = 0 \<and> 4 \<le> payload_len pkt \<and>
     udp_src_port (udp_header pkt) = SERVER_PORT \<and> udp_dst_port (udp_header pkt) = CLIENT_PORT"

definition to_dhcp_server :: "Ipv4Packet \<Rightarrow> bool" where
  "to_dhcp_server pkt \<longleftrightarrow>
     next_header pkt = IpUdp \<and> frag_offset pkt = 0 \<and> 4 \<le> payload_len pkt \<and>
     udp_dst_port (udp_header pkt) = SERVER_PORT"

text \<open>The flow entry for a packet in a proxy, set by this packet.\<close>

definition tracks ::
  "('m, 'n, 'c) Proxy \<Rightarrow> Ipv4Packet \<Rightarrow> FlowDirection \<Rightarrow> Instant \<Rightarrow> bool" where
  "tracks proxy pkt d now \<longleftrightarrow>
     (\<exists>table key. px_flows proxy = Some table \<and> packet_key pkt d = Some key \<and>
        hm_get (flows table) key =
          Some \<lparr>initiating_direction = d, expires_at = now + flow_timeout pkt\<rparr>)"

section \<open>Lemmas: what an operation leaves alone\<close>

definition only_enobufs :: "('m, 'n, 'c) Proxy \<Rightarrow> ('m, 'n, 'c) Proxy \<Rightarrow> bool" where
  "only_enobufs p q \<longleftrightarrow> q\<lparr>enobufs_encountered := False\<rparr> = p\<lparr>enobufs_encountered := False\<rparr>"

definition only_flows :: "('m, 'n, 'c) Proxy \<Rightarrow> ('m, 'n, 'c) Proxy \<Rightarrow> bool" where
  "only_flows p q \<longleftrightarrow>
     q\<lparr>px_flows := None, enobufs_encountered := False\<rparr> = p\<lparr>px_flows := None, enobufs_encountered := False\<rparr>"

lemma only_refl [simp]: "only_enobufs p p" "only_flows p p"
  by (simp_all add: only_enobufs_def only_flows_def)

lemma only_update [simp]:
  "only_enobufs p (p\<lparr>enobufs_encountered := b\<rparr>)" "only_flows p (p\<lparr>px_flows := fl\<rparr>)"
  by (simp_all add: only_enobufs_def only_flows_def)

lemma only_trans [trans]:
  "only_enobufs p q \<Longrightarrow> only_enobufs q r \<Longrightarrow> only_enobufs p r"
  "only_flows p q \<Longrightarrow> only_flows q r \<Longrightarrow> only_flows p r"
  by (simp_all add: only_enobufs_def only_flows_def)

lemma only_enobufs_flows: "only_enobufs p q \<Longrightarrow> only_flows p q"
  by (cases p; cases q) (simp add: only_enobufs_def only_flows_def)

lemma only_enobufsD:
  assumes "only_enobufs p q"
  shows "px_flows q = px_flows p" "px_rules q = px_rules p" "px_host q = px_host p"
    "vm_mac_address q = vm_mac_address p" "peer_ips q = peer_ips p" "px_allow q = px_allow p"
    "px_block q = px_block p" "dhcp_server q = dhcp_server p" "dns_server q = dns_server p" "px_vm q = px_vm p"
  using assms by (cases p; cases q; simp add: only_enobufs_def)+

lemma only_flowsD:
  assumes "only_flows p q"
  shows "px_rules q = px_rules p" "px_host q = px_host p"
    "vm_mac_address q = vm_mac_address p" "peer_ips q = peer_ips p" "px_allow q = px_allow p"
    "px_block q = px_block p" "dhcp_server q = dhcp_server p" "dns_server q = dns_server p" "px_vm q = px_vm p"
  using assms by (cases p; cases q; simp add: only_flows_def)+

lemma write_to_vm_effect:
  assumes "write_to_vm env p b = (r, q, out)"
  shows "only_enobufs p q" "out = [ToVm b]"
  using assms by (auto simp: write_to_vm_def split: sum.splits if_splits)

lemma consume_dhcp_effect:
  assumes "consume_dhcp env p pkt = (c, q, out)"
  shows "only_enobufs p q" "c = to_dhcp_server pkt" "\<forall>x \<in> set out. \<exists>b. x = ToVm b"
proof -
  show "only_enobufs p q"
    using assms
    by (auto simp: consume_dhcp_def Let_def dest!: write_to_vm_effect(1)
        split: if_splits sum.splits option.splits prod.splits)
  show "c = to_dhcp_server pkt"
    using assms by (auto simp: consume_dhcp_def to_dhcp_server_def case_prod_unfold Let_def
        split: if_splits sum.splits option.splits)
  show "\<forall>x \<in> set out. \<exists>b. x = ToVm b"
    using assms
    by (auto simp: consume_dhcp_def Let_def dest!: write_to_vm_effect(2)
        split: if_splits sum.splits option.splits prod.splits)
qed

lemma consume_dns_effect:
  assumes "consume_dns env p mac pkt = (c, q, out)"
  shows "only_enobufs p q" "\<forall>x \<in> set out. \<exists>b. x = ToVm b"
proof -
  show "only_enobufs p q"
    using assms
    by (auto simp: consume_dns_def Let_def dest!: write_to_vm_effect(1)
        split: if_splits sum.splits option.splits prod.splits)
  show "\<forall>x \<in> set out. \<exists>b. x = ToVm b"
    using assms
    by (auto simp: consume_dns_def Let_def dest!: write_to_vm_effect(2)
        split: if_splits sum.splits option.splits prod.splits)
qed

section \<open>Lemmas: one packet and the flow table\<close>

definition committed :: "FlowTable option \<Rightarrow> PendingFlow option \<Rightarrow> FlowTable option \<Rightarrow> bool" where
  "committed fl pend fl' \<longleftrightarrow>
     (\<exists>t pf. fl = Some t \<and> pend = Some pf \<and> fst (commit t pf) \<and> fl' = Some (snd (commit t pf)))"

lemma admit_effect:
  assumes "admit_with_tracking p pf = (ok, q)"
  shows "only_flows p q" "if ok then committed (px_flows p) (Some pf) (px_flows q) else px_flows q = px_flows p"
  using assms commit_fails
  by (auto simp: admit_with_tracking_def committed_def case_prod_unfold Let_def split: option.splits)

lemma admit_trackable_effect:
  assumes "admit_with_tracking_if_trackable p pend = (ok, q)"
  shows "only_flows p q" "px_flows q = px_flows p \<or> ok \<and> committed (px_flows p) pend (px_flows q)"
proof -
  show "only_flows p q"
    using assms by (auto simp: admit_with_tracking_if_trackable_def dest: admit_effect(1) split: option.splits)
  show "px_flows q = px_flows p \<or> ok \<and> committed (px_flows p) pend (px_flows q)"
  proof (cases pend)
    case (Some pf)
    with assms have "admit_with_tracking p pf = (ok, q)" by (simp add: admit_with_tracking_if_trackable_def)
    from admit_effect(2)[OF this] Some show ?thesis by (simp split: if_splits)
  qed (use assms in \<open>simp add: admit_with_tracking_if_trackable_def\<close>)
qed

lemma admit_stateful_effect:
  assumes "admit_with_tracking_if_stateful env p pend pkt d = (ok, q)"
  shows "only_flows p q" "px_flows q = px_flows p \<or> ok \<and> committed (px_flows p) pend (px_flows q)"
  using assms admit_trackable_effect[of p pend ok q]
  by (auto simp: admit_with_tracking_if_stateful_def split: if_splits)

lemma admit_option_effect:
  assumes "(case pend of None \<Rightarrow> (False, p) | Some pf \<Rightarrow> admit_with_tracking p pf) = (ok, q)"
  shows "only_flows p q" "if ok then committed (px_flows p) pend (px_flows q) else px_flows q = px_flows p"
  using assms admit_effect[of p _ ok q] by (auto split: option.splits)

lemmas admit_effects = admit_trackable_effect admit_stateful_effect

lemma outbound_decision_effect:
  assumes "outbound_decision env p pend pkt = (ok, q)"
  shows "only_flows p q" "px_flows q = px_flows p \<or> ok \<and> committed (px_flows p) pend (px_flows q)"
    "ok \<Longrightarrow> outbound_permitted env p pkt"
    "ok \<Longrightarrow> policy_decision (env_policy env) (px_rules p) pkt Out = Some AllowStateful \<Longrightarrow>
      committed (px_flows p) pend (px_flows q)"
proof -
  let ?d = "policy_decision (env_policy env) (px_rules p) pkt Out"
  consider "?d = Some DecisionBlock" | "?d = Some AllowStateless" | "?d = Some AllowStateful" | "?d = None"
    by (metis PolicyDecision.exhaust option.exhaust)
  note cases = this
  show "only_flows p q"
    using assms by (cases rule: cases)
      (auto simp: outbound_decision_def dest: admit_effects(1,3) admit_option_effect(1) split: if_splits)
  show "px_flows q = px_flows p \<or> ok \<and> committed (px_flows p) pend (px_flows q)"
    using assms
  proof (cases rule: cases)
    case 3
    with assms show ?thesis using admit_option_effect(2)[where p = p and pend = pend and ok = ok and q = q]
      by (simp add: outbound_decision_def split: if_splits)
  qed (auto simp: outbound_decision_def dest: admit_effects(2,4) split: if_splits)
  show "ok \<Longrightarrow> outbound_permitted env p pkt"
    using assms by (cases rule: cases)
      (auto simp: outbound_decision_def outbound_permitted_def split: if_splits)
  show "ok \<Longrightarrow> ?d = Some AllowStateful \<Longrightarrow> committed (px_flows p) pend (px_flows q)"
    using assms admit_option_effect(2)[where p = p and pend = pend and ok = ok and q = q] by (simp add: outbound_decision_def)
qed

lemma inbound_decision_effect:
  assumes "inbound_decision env p pend pkt = (ok, q)"
  shows "only_flows p q" "px_flows q = px_flows p \<or> ok \<and> committed (px_flows p) pend (px_flows q)"
    "ok \<Longrightarrow> inbound_permitted env p pkt"
    "ok \<Longrightarrow> policy_decision (env_policy env) (px_rules p) pkt In = Some AllowStateful \<Longrightarrow>
      committed (px_flows p) pend (px_flows q)"
proof -
  let ?d = "policy_decision (env_policy env) (px_rules p) pkt In"
  consider "?d = Some DecisionBlock" | "?d = Some AllowStateless" | "?d = Some AllowStateful" | "?d = None"
    by (metis PolicyDecision.exhaust option.exhaust)
  note cases = this
  show "only_flows p q"
    using assms by (cases rule: cases)
      (auto simp: inbound_decision_def dest: admit_effects(1,3) admit_option_effect(1))
  show "px_flows q = px_flows p \<or> ok \<and> committed (px_flows p) pend (px_flows q)"
    using assms
  proof (cases rule: cases)
    case 3
    with assms show ?thesis using admit_option_effect(2)[where p = p and pend = pend and ok = ok and q = q]
      by (simp add: inbound_decision_def split: if_splits)
  qed (auto simp: inbound_decision_def dest: admit_effects(2,4))
  show "ok \<Longrightarrow> inbound_permitted env p pkt"
    using assms by (cases rule: cases) (auto simp: inbound_decision_def inbound_permitted_def)
  show "ok \<Longrightarrow> ?d = Some AllowStateful \<Longrightarrow> committed (px_flows p) pend (px_flows q)"
    using assms admit_option_effect(2)[where p = p and pend = pend and ok = ok and q = q] by (simp add: inbound_decision_def)
qed

lemma inspect_flows_effect:
  assumes "inspect_flows p pkt d now = (m, q)"
  shows "only_flows p q"
    "px_flows p = None \<Longrightarrow> q = p \<and> m = Untracked"
    "px_flows p = Some t \<Longrightarrow> px_flows q = Some (sweep_if_due t now) \<and> m = fst (inspect_at t pkt d now)"
  using assms inspect_at_table[of t pkt d now]
  by (auto simp: inspect_flows_def case_prod_unfold Let_def split: option.splits)

text \<open>
  What one packet may do to the flow table: nothing, a sweep, or a sweep followed by the
  commit of the entry the packet proposes, and the last only if the packet is let through.
\<close>

definition table_step ::
  "FlowTable \<Rightarrow> Ipv4Packet \<Rightarrow> FlowDirection \<Rightarrow> Instant \<Rightarrow> bool \<Rightarrow> FlowTable \<Rightarrow> bool" where
  "table_step t pkt d now ok t' \<longleftrightarrow>
     t' = t \<or> t' = sweep_if_due t now \<or>
     ok \<and> (\<exists>pf. proposes pf pkt d now \<and> fst (commit (sweep_if_due t now) pf) \<and>
       t' = snd (commit (sweep_if_due t now) pf))"

definition flows_step ::
  "FlowTable option \<Rightarrow> Ipv4Packet \<Rightarrow> FlowDirection \<Rightarrow> Instant \<Rightarrow> bool \<Rightarrow> FlowTable option \<Rightarrow> bool" where
  "flows_step fl pkt d now ok fl' =
     (case fl of None \<Rightarrow> fl' = None | Some t \<Rightarrow> \<exists>t'. fl' = Some t' \<and> table_step t pkt d now ok t')"

lemma flows_step_refl [simp]: "flows_step fl pkt d now ok fl"
  by (simp add: flows_step_def table_step_def split: option.splits)

lemma table_step_wf: "flow_table_wf t \<Longrightarrow> table_step t pkt d now ok t' \<Longrightarrow> flow_table_wf t'"
  by (auto simp: table_step_def proposes_def intro: sweep_wf commit_wf)

lemma table_step_get:
  assumes "flow_table_wf t" "table_step t pkt d now ok t'" "hm_get (flows t') k = Some f"
  shows "hm_get (flows t) k = Some f \<or>
    ok \<and> packet_key pkt d = Some k \<and> f = \<lparr>initiating_direction = d, expires_at = now + flow_timeout pkt\<rparr>"
proof -
  from assms(2) consider "t' = t" | "t' = sweep_if_due t now"
    | pf where "ok" "proposes pf pkt d now" "fst (commit (sweep_if_due t now) pf)"
        "t' = snd (commit (sweep_if_due t now) pf)"
    unfolding table_step_def by blast
  then show ?thesis
  proof cases
    case 2
    then show ?thesis using assms sweep_get by blast
  next
    case 3
    then show ?thesis
      using assms(1,3) sweep_get[OF assms(1)]
      by (auto simp: commit_get proposes_def split: if_splits intro: Flow.equality)
  qed (use assms in simp)
qed

definition pending_of :: "FlowMatch \<Rightarrow> PendingFlow option" where
  "pending_of m = (case m of Candidate pf \<Rightarrow> Some pf | _ \<Rightarrow> None)"

lemma decision_flows_step:
  assumes ins: "inspect_flows p pkt d now = (m, q0)"
    and wf: "\<And>t. px_flows p = Some t \<Longrightarrow> flow_table_wf t"
    and pend: "pend = pending_of m"
    and fl: "px_flows q = px_flows q0 \<or> ok \<and> committed (px_flows q0) pend (px_flows q)"
  shows "flows_step (px_flows p) pkt d now ok (px_flows q)"
    and "committed (px_flows q0) pend (px_flows q) \<Longrightarrow> tracks q pkt d now"
proof -
  have proposal: "proposes pf pkt d now" if "px_flows p = Some t" "pend = Some pf" for t pf
    using that pend inspect_flows_effect(3)[OF ins] inspect_at_candidate[OF wf]
    by (auto simp: pending_of_def split: FlowMatch.splits)
  show "flows_step (px_flows p) pkt d now ok (px_flows q)"
  proof (cases "px_flows p")
    case None
    then have "px_flows q0 = None" using inspect_flows_effect(2)[OF ins] by simp
    then show ?thesis using None fl by (auto simp: flows_step_def committed_def)
  next
    case (Some t)
    then have "px_flows q0 = Some (sweep_if_due t now)" using inspect_flows_effect(3)[OF ins] by simp
    then show ?thesis using Some fl proposal
      by (auto simp: flows_step_def table_step_def committed_def)
  qed
  assume "committed (px_flows q0) pend (px_flows q)"
  then obtain t pf where c: "px_flows q0 = Some t" "pend = Some pf" "fst (commit t pf)"
    "px_flows q = Some (snd (commit t pf))" by (auto simp: committed_def)
  then have "px_flows p \<noteq> None" using inspect_flows_effect(2)[OF ins] by auto
  then obtain t0 where "px_flows p = Some t0" by blast
  from proposal[OF this c(2)] have pr: "proposes pf pkt d now" .
  moreover have "hm_get (flows (snd (commit t pf))) (pending_key pf) = Some (pending_flow pf)"
    using commit_get[OF c(3)] by simp
  moreover from pr have "pending_flow pf = \<lparr>initiating_direction = d, expires_at = now + flow_timeout pkt\<rparr>"
    by (auto simp: proposes_def intro: Flow.equality)
  ultimately show "tracks q pkt d now"
    using c(4) by (auto simp: tracks_def proposes_def)
qed

lemma return_traffic_match:
  assumes "inspect_flows p pkt d now = (m, q)" and "\<And>t. px_flows p = Some t \<Longrightarrow> flow_table_wf t"
  shows "m = Allowed \<longleftrightarrow> is_return_traffic p pkt d now"
proof (cases "px_flows p")
  case (Some t)
  then show ?thesis
    using inspect_flows_effect(3)[OF assms(1)] inspect_at_allowed[OF assms(2)[OF Some]]
    by (simp add: is_return_traffic_def)
qed (use inspect_flows_effect(2)[OF assms(1)] in \<open>simp add: is_return_traffic_def\<close>)

text \<open>The paths of a packet from the VM through the decision procedure.\<close>

lemma vm_ipv4_cases:
  assumes "allowed_from_vm_ipv4 env p mac pkt now = (ok, q, out)"
    and "consume_dhcp env p pkt = (c, p1, out1)" and "consume_dns env p1 mac pkt = (e, p2, out2)"
    and "inspect_flows p2 pkt FromVm now = (m, p3)" and "px_host p1 = px_host p"
  obtains (consumed) "ok = False" "q = p1 \<and> out = out1 \<or> q = p2 \<and> out = out1 @ out2"
    | (allowed) "\<not> c" "src_addr pkt = host_vm_ip (px_host p)" "m = Allowed" "ok = True" "q = p3" "out = out1 @ out2"
    | (denied) "ok = False" "q = p3" "out = out1 @ out2"
    | (policy) "\<not> c" "src_addr pkt = host_vm_ip (px_host p)" "m \<noteq> Allowed" "m \<noteq> Denied" "out = out1 @ out2"
        "outbound_decision env p3 (pending_of m) pkt = (ok, q)"
  using assms
  by (cases m) (auto simp: allowed_from_vm_ipv4_def pending_of_def Let_def split: if_splits bool.splits prod.splits)

lemma vm_ipv4_effect:
  assumes a: "allowed_from_vm_ipv4 env p mac pkt now = (ok, q, out)"
    and wf: "\<And>t. px_flows p = Some t \<Longrightarrow> flow_table_wf t"
  shows "only_flows p q" "\<forall>x \<in> set out. \<exists>b. x = ToVm b"
    "flows_step (px_flows p) pkt FromVm now ok (px_flows q)"
    "ok \<Longrightarrow> src_addr pkt = host_vm_ip (px_host p) \<and> \<not> to_dhcp_server pkt"
    "ok \<Longrightarrow> is_return_traffic p pkt FromVm now \<or> outbound_permitted env p pkt"
    "ok \<Longrightarrow> policy_decision (env_policy env) (px_rules p) pkt Out = Some AllowStateful \<Longrightarrow>
      is_return_traffic p pkt FromVm now \<or> tracks q pkt FromVm now"
proof -
  obtain c p1 out1 where dhcp: "consume_dhcp env p pkt = (c, p1, out1)" by (cases "consume_dhcp env p pkt")
  obtain e p2 out2 where dns: "consume_dns env p1 mac pkt = (e, p2, out2)" by (cases "consume_dns env p1 mac pkt")
  obtain m p3 where ins: "inspect_flows p2 pkt FromVm now = (m, p3)" by (cases "inspect_flows p2 pkt FromVm now")
  note e1 = consume_dhcp_effect[OF dhcp] and e2 = consume_dns_effect[OF dns]
  note k1 = only_enobufsD[OF e1(1)] and k2 = only_enobufsD[OF e2(1)]
  have s2: "only_flows p p2" using e1(1) e2(1) by (blast intro: only_trans only_enobufs_flows)
  have s3: "only_flows p p3" using s2 inspect_flows_effect(1)[OF ins] by (rule only_trans)
  have perm: "outbound_permitted env p3 pkt = outbound_permitted env p pkt" "px_rules p3 = px_rules p"
    by (simp_all only: outbound_permitted_def only_flowsD[OF s3])
  have fl2: "px_flows p2 = px_flows p" using k1 k2 by simp
  have wf2: "px_flows p2 = Some t \<Longrightarrow> flow_table_wf t" for t using wf fl2 by simp
  let ?pend = "pending_of m"
  note cases = vm_ipv4_cases[OF a dhcp dns ins k1(3), case_names consumed allowed denied policy]
  have step3: "flows_step (px_flows p) pkt FromVm now b (px_flows p3)" for b
    using decision_flows_step(1)[OF ins wf2 refl, of p3 b] fl2 by simp
  have outs: "\<forall>x \<in> set (out1 @ out2). \<exists>b. x = ToVm b" using e1(3) e2(2) by auto
  show "only_flows p q"
    using e1(1) s2 s3 by (cases rule: cases)
      (auto dest: outbound_decision_effect(1) intro: only_enobufs_flows only_trans)
  show "\<forall>x \<in> set out. \<exists>b. x = ToVm b"
    using outs by (cases rule: cases) auto
  show "flows_step (px_flows p) pkt FromVm now ok (px_flows q)"
  proof (cases rule: cases)
    case policy
    then show ?thesis
      using decision_flows_step(1)[OF ins wf2 refl outbound_decision_effect(2)[OF policy(6)]] fl2 by simp
  qed (use step3 k1 fl2 in auto)
  show "ok \<Longrightarrow> src_addr pkt = host_vm_ip (px_host p) \<and> \<not> to_dhcp_server pkt"
    using e1(2) by (cases rule: cases) auto
  have ret: "m = Allowed \<longleftrightarrow> is_return_traffic p pkt FromVm now"
    using return_traffic_match[OF ins wf2] fl2 by (simp add: is_return_traffic_def)
  then show "ok \<Longrightarrow> is_return_traffic p pkt FromVm now \<or> outbound_permitted env p pkt"
    using perm by (cases rule: cases) (auto dest: outbound_decision_effect(3))
  show "ok \<Longrightarrow> policy_decision (env_policy env) (px_rules p) pkt Out = Some AllowStateful \<Longrightarrow>
      is_return_traffic p pkt FromVm now \<or> tracks q pkt FromVm now"
  proof (cases rule: cases)
    case policy
    assume "ok" "policy_decision (env_policy env) (px_rules p) pkt Out = Some AllowStateful"
    then have "committed (px_flows p3) ?pend (px_flows q)"
      using outbound_decision_effect(4)[OF policy(6)] perm(2) by simp
    then show ?thesis
      using decision_flows_step(2)[OF ins wf2 refl outbound_decision_effect(2)[OF policy(6)]] by blast
  qed (use ret in auto)
qed

text \<open>The paths of a packet from the host.\<close>

lemma host_ipv4_cases:
  assumes "allowed_from_host_ipv4 env p pkt now = (ok, q)" and "inspect_flows p pkt FromHost now = (m, p1)"
  obtains (dhcp) "from_dhcp_server pkt" "ok = False" "q = p"
    | (legacy) "\<not> from_dhcp_server pkt" "px_flows p = None" "ok = True" "q = p"
    | (allowed) "\<not> from_dhcp_server pkt" "px_flows p \<noteq> None" "dst_addr pkt = host_vm_ip (px_host p)"
        "m = Allowed" "ok = True" "q = p1"
    | (denied) "px_flows p \<noteq> None" "m \<noteq> Allowed" "ok = False" "q = p1"
    | (policy) "\<not> from_dhcp_server pkt" "px_flows p \<noteq> None" "dst_addr pkt = host_vm_ip (px_host p)"
        "m \<noteq> Allowed" "inbound_decision env p1 (pending_of m) pkt = (ok, q)"
    | (elsewhere) "\<not> from_dhcp_server pkt" "px_flows p \<noteq> None" "dst_addr pkt \<noteq> host_vm_ip (px_host p)"
        "inbound_decision env p None pkt = (ok, q)"
  using assms
  by (cases m) (auto simp: allowed_from_host_ipv4_def from_dhcp_server_def pending_of_def split: if_splits)

lemma host_ipv4_effect:
  assumes a: "allowed_from_host_ipv4 env p pkt now = (ok, q)"
    and wf: "\<And>t. px_flows p = Some t \<Longrightarrow> flow_table_wf t"
  shows "only_flows p q" "flows_step (px_flows p) pkt FromHost now ok (px_flows q)"
    "ok \<Longrightarrow> \<not> from_dhcp_server pkt"
    "ok \<Longrightarrow> px_flows p \<noteq> None \<Longrightarrow>
      dst_addr pkt = host_vm_ip (px_host p) \<and> is_return_traffic p pkt FromHost now \<or>
      inbound_permitted env p pkt"
    "ok \<Longrightarrow> px_flows p \<noteq> None \<Longrightarrow>
      policy_decision (env_policy env) (px_rules p) pkt In = Some AllowStateful \<Longrightarrow>
      dst_addr pkt = host_vm_ip (px_host p) \<and>
      (is_return_traffic p pkt FromHost now \<or> tracks q pkt FromHost now)"
    "\<not> from_dhcp_server pkt \<Longrightarrow> px_flows p = None \<or> dst_addr pkt = host_vm_ip (px_host p) \<and>
      is_return_traffic p pkt FromHost now \<Longrightarrow> ok"
proof -
  obtain m p1 where ins: "inspect_flows p pkt FromHost now = (m, p1)" by (cases "inspect_flows p pkt FromHost now")
  have s1: "only_flows p p1" using inspect_flows_effect(1)[OF ins] .
  have perm: "inbound_permitted env p1 pkt = inbound_permitted env p pkt" "px_rules p1 = px_rules p"
    by (simp_all only: inbound_permitted_def only_flowsD[OF s1])
  let ?pend = "pending_of m"
  note cases = host_ipv4_cases[OF a ins, case_names dhcp legacy allowed denied policy elsewhere]
  have ret: "m = Allowed \<longleftrightarrow> is_return_traffic p pkt FromHost now"
    using return_traffic_match[OF ins wf] .
  have none: "\<not> committed fl None fl'" for fl fl' by (simp add: committed_def)
  show "only_flows p q"
    using s1 by (cases rule: cases) (auto dest: inbound_decision_effect(1) intro: only_trans)
  show "flows_step (px_flows p) pkt FromHost now ok (px_flows q)"
  proof (cases rule: cases)
    case policy
    then show ?thesis
      using decision_flows_step(1)[OF ins wf refl inbound_decision_effect(2)[OF policy(5)]] by simp
  next
    case elsewhere
    then show ?thesis using inbound_decision_effect(2)[OF elsewhere(4)] none by simp
  qed (use decision_flows_step(1)[OF ins wf refl, of p1 ok] in auto)
  show "ok \<Longrightarrow> \<not> from_dhcp_server pkt"
    by (cases rule: cases) auto
  show "ok \<Longrightarrow> px_flows p \<noteq> None \<Longrightarrow>
      dst_addr pkt = host_vm_ip (px_host p) \<and> is_return_traffic p pkt FromHost now \<or>
      inbound_permitted env p pkt"
    using ret perm by (cases rule: cases) (auto dest: inbound_decision_effect(3))
  show "ok \<Longrightarrow> px_flows p \<noteq> None \<Longrightarrow>
      policy_decision (env_policy env) (px_rules p) pkt In = Some AllowStateful \<Longrightarrow>
      dst_addr pkt = host_vm_ip (px_host p) \<and>
      (is_return_traffic p pkt FromHost now \<or> tracks q pkt FromHost now)"
  proof (cases rule: cases)
    case policy
    assume "ok" "policy_decision (env_policy env) (px_rules p) pkt In = Some AllowStateful"
    then have "committed (px_flows p1) ?pend (px_flows q)"
      using inbound_decision_effect(4)[OF policy(5)] perm(2) by simp
    then show ?thesis
      using decision_flows_step(2)[OF ins wf refl inbound_decision_effect(2)[OF policy(5)]] policy(3) by blast
  next
    case elsewhere
    assume "ok" "policy_decision (env_policy env) (px_rules p) pkt In = Some AllowStateful"
    then show ?thesis using inbound_decision_effect(4)[OF elsewhere(4)] none by simp
  qed (use ret in auto)
  show "\<not> from_dhcp_server pkt \<Longrightarrow> px_flows p = None \<or> dst_addr pkt = host_vm_ip (px_host p) \<and>
      is_return_traffic p pkt FromHost now \<Longrightarrow> ok"
    using ret by (cases rule: cases) auto
qed

section \<open>Lemmas: frames\<close>

lemma wf_tables: "proxy_wf env p \<Longrightarrow> px_flows p = Some t \<Longrightarrow> flow_table_wf t"
  by (simp add: proxy_wf_def)

text \<open>A frame that is an IPv4 packet of a direction, and what a frame does to the table.\<close>

definition frame_step ::
  "('m, 'n, 'c) Proxy \<Rightarrow> EthernetFrame \<Rightarrow> FlowDirection \<Rightarrow> Instant \<Rightarrow> bool \<Rightarrow> ('m, 'n, 'c) Proxy \<Rightarrow> bool" where
  "frame_step p frame d now ok q \<longleftrightarrow> only_flows p q \<and>
     (px_flows q = px_flows p \<or>
      frame_ethertype frame = EtherIpv4 \<and> frame_ipv4_valid frame \<and>
      flows_step (px_flows p) (frame_ipv4 frame) d now ok (px_flows q))"

lemma allowed_from_vm_cases:
  assumes "allowed_from_vm env p frame now = (ok, q, out)"
  obtains (ipv4) "frame_src frame = vm_mac_address p" "frame_ethertype frame = EtherIpv4"
      "frame_ipv4_valid frame" "header_len (frame_ipv4 frame) = IPV4_HEADER_LEN_WITHOUT_OPTIONS"
      "allowed_from_vm_ipv4 env p (frame_dst frame) (frame_ipv4 frame) now = (ok, q, out)"
    | (arp) "q = p" "out = []"
      "ok \<Longrightarrow> frame_src frame = vm_mac_address p \<and> frame_ethertype frame = EtherArp \<and>
        (\<exists>arp. frame_arp frame = Some arp \<and> allowed_from_vm_arp p arp)"
  using assms by (auto simp: allowed_from_vm_def split: if_splits EthernetProtocol.splits option.splits)

lemma allowed_from_vm_step:
  assumes "proxy_wf env p" "allowed_from_vm env p frame now = (ok, q, out)"
  shows "frame_step p frame FromVm now ok q" "\<forall>x \<in> set out. \<exists>b. x = ToVm b"
  using assms(2)
proof (atomize (full), cases rule: allowed_from_vm_cases)
  case ipv4
  note eff = vm_ipv4_effect[OF ipv4(5) wf_tables[OF assms(1)]]
  show "frame_step p frame FromVm now ok q \<and> (\<forall>x \<in> set out. \<exists>b. x = ToVm b)"
    using eff(1-3) ipv4 by (simp add: frame_step_def)
qed (simp add: frame_step_def)

lemma allowed_from_host_cases:
  assumes "allowed_from_host env p frame now = (ok, q)"
  obtains (ipv4) "frame_ethertype frame = EtherIpv4" "frame_ipv4_valid frame"
      "allowed_from_host_ipv4 env p (frame_ipv4 frame) now = (ok, q)"
    | (arp) "q = p" "ok \<Longrightarrow> frame_ethertype frame = EtherArp"
  using assms by (auto simp: allowed_from_host_def split: if_splits EthernetProtocol.splits)

lemma allowed_from_host_step:
  assumes "proxy_wf env p" "allowed_from_host env p frame now = (ok, q)"
  shows "frame_step p frame FromHost now ok q"
  using assms(2)
proof (cases rule: allowed_from_host_cases)
  case ipv4
  then show ?thesis
    using host_ipv4_effect(1,2)[OF ipv4(3) wf_tables[OF assms(1)]] by (simp add: frame_step_def)
qed (simp add: frame_step_def)

lemma process_vm_step:
  assumes "proxy_wf env p" "process_frame_from_vm env p frame now = (r, q, out)"
  shows "frame_step p frame FromVm now (\<exists>b. ToHost b \<in> set out) q"
    and "ToHost b \<in> set out \<Longrightarrow> b = frame_bytes frame"
    and "(\<exists>b. ToHost b \<in> set out) \<longleftrightarrow> fst (allowed_from_vm env p frame now)"
proof -
  obtain ok q' out' where a: "allowed_from_vm env p frame now = (ok, q', out')"
    by (cases "allowed_from_vm env p frame now")
  note step = allowed_from_vm_step[OF assms(1) a]
  have vm: "ToHost b \<notin> set out'" for b using step(2) by auto
  have q: "q = q'" and out: "out = (if ok then out' @ [ToHost (frame_bytes frame)] else out')"
    using assms(2) a by (cases ok; auto simp: process_frame_from_vm_def split: sum.splits)+
  then have ok: "(\<exists>b. ToHost b \<in> set out) = ok" using vm by auto
  then show "frame_step p frame FromVm now (\<exists>b. ToHost b \<in> set out) q" using step(1) q by simp
  show "ToHost b \<in> set out \<Longrightarrow> b = frame_bytes frame" using out vm by (auto split: if_splits)
  show "(\<exists>b. ToHost b \<in> set out) \<longleftrightarrow> fst (allowed_from_vm env p frame now)" using ok a by simp
qed

lemma frame_step_trans:
  "frame_step p frame d now ok q \<Longrightarrow> only_enobufs q r \<Longrightarrow> frame_step p frame d now ok r"
  unfolding frame_step_def by (metis only_enobufsD(1) only_enobufs_flows only_trans(2))

lemma process_host_step:
  assumes "proxy_wf env p" "process_frame_from_host env p frame now = (r, q, out)"
  shows "frame_step p frame FromHost now (out \<noteq> []) q"
    and "out \<noteq> [] \<longleftrightarrow> fst (allowed_from_host env p frame now)"
    and "out \<noteq> [] \<Longrightarrow> out = [ToVm (frame_bytes frame)]"
proof -
  obtain ok q' where a: "allowed_from_host env p frame now = (ok, q')"
    by (cases "allowed_from_host env p frame now")
  note step = allowed_from_host_step[OF assms(1) a]
  show "out \<noteq> [] \<longleftrightarrow> fst (allowed_from_host env p frame now)"
    "out \<noteq> [] \<Longrightarrow> out = [ToVm (frame_bytes frame)]"
    using assms(2) a by (auto simp: process_frame_from_host_def dest: write_to_vm_effect(2) split: bool.splits)
  have "only_enobufs q' q"
    using assms(2) a by (auto simp: process_frame_from_host_def dest: write_to_vm_effect(1) split: bool.splits)
  moreover have "ok = (out \<noteq> [])"
    using a \<open>out \<noteq> [] \<longleftrightarrow> fst (allowed_from_host env p frame now)\<close> by simp
  ultimately show "frame_step p frame FromHost now (out \<noteq> []) q"
    using step frame_step_trans by blast
qed

lemma process_host_flows:
  "process_frame_from_host env p frame now = (r, q, out) \<Longrightarrow> px_flows q = px_flows (snd (allowed_from_host env p frame now))"
  by (auto simp: process_frame_from_host_def dest!: write_to_vm_effect(1) only_enobufsD(1)
      split: bool.splits prod.splits)

lemma process_vm_flows:
  "process_frame_from_vm env p frame now = (r, q, out) \<Longrightarrow> q = fst (snd (allowed_from_vm env p frame now))"
  by (auto simp: process_frame_from_vm_def split: bool.splits prod.splits sum.splits)

lemma frame_step_wf:
  assumes "proxy_wf env p" "frame_step p frame d now ok q"
  shows "proxy_wf env q"
proof -
  have "px_flows q = None \<longleftrightarrow> px_flows p = None"
    using assms(2) by (auto simp: frame_step_def flows_step_def split: option.splits)
  moreover have "flow_table_wf t" if "px_flows q = Some t" for t
    using that assms wf_tables[OF assms(1)] table_step_wf
    by (auto simp: frame_step_def flows_step_def split: option.splits)
  moreover have "only_flows p q" using assms(2) by (simp add: frame_step_def)
  ultimately show ?thesis
    using assms(1) unfolding proxy_wf_def only_flowsD[OF \<open>only_flows p q\<close>] by simp
qed

end
