(* ===== verification/Proxy_Trace.thy ===== *)
theory Proxy_Trace
  imports Proxy_Safety
begin

text \<open>
  The packet proxy over time: policy replacement, the states its select loop can reach, and what
  ties the frames let through in one direction to those of the other.
\<close>

section \<open>Lemmas: policies\<close>

lemma normalize_set: "set (normalize_rules I rs) = Rule_normalized I ` set rs"
  by (simp add: normalize_rules_def)

lemma normalize_sorted: "sorted (map (Rule_to_string I) (normalize_rules I rs))"
  unfolding normalize_rules_def by (rule dedup_sorted) simp

lemma normalize_unique:
  assumes "ipnet_api I" "\<forall>r \<in> set rs \<union> set rs'. Rule_wf r"
    and "Rule_normalized I ` set rs = Rule_normalized I ` set rs'"
  shows "normalize_rules I rs = normalize_rules I rs'" "distinct (normalize_rules I rs)"
proof -
  have inj: "inj_on (Rule_to_string I) (Rule_normalized I ` set rs)"
    using assms(2) ipnet_api.Rule_normalized_wf[OF assms(1)]
    by (intro inj_on_subset[OF ipnet_api.Rule_to_string_inj[OF assms(1)]]) auto
  have dist: "distinct (normalize_rules I xs)" if "Rule_normalized I ` set xs = Rule_normalized I ` set rs" for xs
    unfolding normalize_rules_def
    by (rule dedup_distinct[where f = "Rule_to_string I"]) (use inj that in simp_all)
  show "distinct (normalize_rules I rs)" by (rule dist) simp
  show "normalize_rules I rs = normalize_rules I rs'"
    by (rule sorted_key_distinct_unique[where f = "Rule_to_string I"])
      (use assms(3) inj dist normalize_sorted in \<open>auto simp: normalize_set\<close>)
qed

lemma normalize_idem:
  assumes "ipnet_api I"
  shows "normalize_rules I (normalize_rules I rs) = normalize_rules I rs"
proof -
  have "map (Rule_normalized I) (normalize_rules I rs) = normalize_rules I rs"
    by (rule map_idI) (use ipnet_api.Rule_normalized_idem[OF assms] in \<open>auto simp: normalize_set\<close>)
  moreover have "sort_key (Rule_to_string I) (normalize_rules I rs) = normalize_rules I rs"
    using normalize_sorted by (rule sort_key_id_if_sorted)
  moreover have "dedup (normalize_rules I rs) = normalize_rules I rs"
    by (simp add: normalize_rules_def)
  ultimately show ?thesis by (simp add: normalize_rules_def [of I "normalize_rules I rs"])
qed

lemma new_flows_wf: "new_flows rules now = Some t \<Longrightarrow> flow_table_wf t"
  by (auto simp: new_flows_def FlowTable_new_wf split: if_splits)

lemma new_flows_None: "new_flows rules now = None \<longleftrightarrow> \<not> has_stateful rules"
  by (simp add: new_flows_def)

lemma Proxy_new_wf:
  assumes "Proxy_new env vm mac vm_ip gw netmask ips allow block dns now = Inr p"
  shows "proxy_wf env p" "\<And>t. px_flows p = Some t \<Longrightarrow> flows t = []"
  using assms
  by (auto simp: Proxy_new_def proxy_wf_def Let_def result_iffs new_flows_wf new_flows_None DhcpServer_new_def)
    (auto simp: new_flows_def FlowTable_new_def split: if_splits)

lemma policy_set_cases:
  assumes "policy_set env p allow block now = (pol, q)"
  obtains (same) "q = p" "px_allow p = normalize_rules (env_policy env) allow"
      "px_block p = normalize_rules (env_policy env) block"
    | (changed) rules where
      "rules = Rules_new (env_policy env) (host_gateway_ip (px_host p)) (peer_ips p)
         (normalize_rules (env_policy env) allow) (normalize_rules (env_policy env) block)"
      "q = p\<lparr>px_rules := rules, px_allow := normalize_rules (env_policy env) allow,
         px_block := normalize_rules (env_policy env) block, px_flows := new_flows rules now\<rparr>"
      "px_allow q \<noteq> px_allow p \<or> px_block q \<noteq> px_block p"
  using assms by (auto simp: policy_set_def Let_def split: if_splits)

lemma policy_set_wf:
  assumes "proxy_wf env p" "policy_set env p allow block now = (pol, q)"
  shows "proxy_wf env q"
  using assms(2)
proof (cases rule: policy_set_cases)
  case (changed rules)
  then show ?thesis
    using assms(1) by (simp add: proxy_wf_def new_flows_None) (blast intro: new_flows_wf)
qed (use assms(1) in simp)

section \<open>Reachable states\<close>

text \<open>
  The states a proxy can reach, with the frames it let through under the current policy: their
  direction, the frame and the time. A policy that differs after normalization starts a new record.
\<close>

type_synonym passed = "FlowDirection \<times> EthernetFrame \<times> Instant"

inductive proxy_reachable ::
  "('p, 'm, 'n, 'msg, 'z, 'c, 'rq, 'rs) env \<Rightarrow> ('m, 'n, 'c) Proxy \<Rightarrow> ('m, 'n, 'c) Proxy \<Rightarrow> passed list \<Rightarrow> bool"
  for env p0 where
  start: "proxy_reachable env p0 p0 []"
| vm: "proxy_reachable env p0 p log \<Longrightarrow> process_frame_from_vm env p frame now = (r, q, out) \<Longrightarrow>
    proxy_reachable env p0 q (if \<exists>b. ToHost b \<in> set out then log @ [(FromVm, frame, now)] else log)"
| host: "proxy_reachable env p0 p log \<Longrightarrow> process_frame_from_host env p frame now = (r, q, out) \<Longrightarrow>
    proxy_reachable env p0 q (if out \<noteq> [] then log @ [(FromHost, frame, now)] else log)"
| policy: "proxy_reachable env p0 p log \<Longrightarrow> policy_set env p allow block now = (pol, q) \<Longrightarrow>
    proxy_reachable env p0 q (if px_allow q = px_allow p \<and> px_block q = px_block p then log else [])"

lemma reachable_wf: "proxy_reachable env p0 p log \<Longrightarrow> proxy_wf env p0 \<Longrightarrow> proxy_wf env p"
proof (induction rule: proxy_reachable.induct)
  case (vm p log frame now r q out)
  then show ?case using process_vm_step(1) frame_step_wf by blast
next
  case (host p log frame now r q out)
  then show ?case using process_host_step(1) frame_step_wf by blast
next
  case (policy p log allow block now pol q)
  then show ?case using policy_set_wf by blast
qed simp

text \<open>A frame of a direction that opened the flow entry for a tuple.\<close>

definition opened_by :: "passed list \<Rightarrow> FlowKey \<Rightarrow> Flow \<Rightarrow> bool" where
  "opened_by log key f \<longleftrightarrow>
     (\<exists>frame now. (initiating_direction f, frame, now) \<in> set log \<and>
        frame_ethertype frame = EtherIpv4 \<and> frame_ipv4_valid frame \<and>
        packet_key (frame_ipv4 frame) (initiating_direction f) = Some key \<and>
        expires_at f = now + flow_timeout (frame_ipv4 frame))"

definition flows_opened :: "('m, 'n, 'c) Proxy \<Rightarrow> passed list \<Rightarrow> bool" where
  "flows_opened p log \<longleftrightarrow>
     (\<forall>t key f. px_flows p = Some t \<longrightarrow> hm_get (flows t) key = Some f \<longrightarrow> opened_by log key f)"

lemma opened_by_mono: "opened_by log key f \<Longrightarrow> set log \<subseteq> set log' \<Longrightarrow> opened_by log' key f"
  by (auto simp: opened_by_def)

lemma frame_step_opened:
  assumes "proxy_wf env p" "frame_step p frame d now ok q" "flows_opened p log"
  shows "flows_opened q (if ok then log @ [(d, frame, now)] else log)"
  unfolding flows_opened_def
proof (intro allI impI)
  fix t' key f assume t': "px_flows q = Some t'" and get: "hm_get (flows t') key = Some f"
  show "opened_by (if ok then log @ [(d, frame, now)] else log) key f"
  proof (cases "px_flows q = px_flows p")
    case True
    then have "opened_by log key f" using assms(3) t' get by (metis flows_opened_def)
    then show ?thesis by (rule opened_by_mono) auto
  next
    case False
    then have ip: "frame_ethertype frame = EtherIpv4" "frame_ipv4_valid frame"
      and "flows_step (px_flows p) (frame_ipv4 frame) d now ok (px_flows q)"
      using assms(2) by (auto simp: frame_step_def)
    then obtain t where t: "px_flows p = Some t" and step: "table_step t (frame_ipv4 frame) d now ok t'"
      using t' by (auto simp: flows_step_def split: option.splits)
    from table_step_get[OF wf_tables[OF assms(1) t] step get]
    show ?thesis
    proof (elim disjE conjE)
      assume "hm_get (flows t) key = Some f"
      then have "opened_by log key f" using assms(3) t by (simp add: flows_opened_def)
      then show ?thesis by (rule opened_by_mono) auto
    next
      assume "ok" "packet_key (frame_ipv4 frame) d = Some key"
        "f = \<lparr>initiating_direction = d, expires_at = now + flow_timeout (frame_ipv4 frame)\<rparr>"
      then show ?thesis using ip by (auto simp: opened_by_def)
    qed
  qed
qed

lemma reachable_opened:
  assumes "proxy_reachable env p0 p log" "proxy_wf env p0" "\<And>t. px_flows p0 = Some t \<Longrightarrow> flows t = []"
  shows "flows_opened p log"
  using assms
proof (induction rule: proxy_reachable.induct)
  case start
  then show ?case by (simp add: flows_opened_def)
next
  case (vm p log frame now r q out)
  then show ?case
    using frame_step_opened[OF reachable_wf[OF vm(1)] process_vm_step(1)[OF reachable_wf[OF vm(1)] vm(2)]] by blast
next
  case (host p log frame now r q out)
  then show ?case
    using frame_step_opened[OF reachable_wf[OF host(1)] process_host_step(1)[OF reachable_wf[OF host(1)] host(2)]]
    by blast
next
  case (policy p log allow block now pol q)
  from policy(2) show ?case
  proof (cases rule: policy_set_cases)
    case same
    then show ?thesis using policy by simp
  next
    case (changed rules)
    then have "px_flows q = Some t \<Longrightarrow> flows t = []" for t
      by (auto simp: new_flows_def FlowTable_new_def split: if_splits)
    then show ?thesis by (auto simp: flows_opened_def)
  qed
qed

section \<open>Lemmas: the select loop\<close>

text \<open>The states reached without a change of the policy, with the frames let through on the way.\<close>

inductive frames_reach ::
  "('p, 'm, 'n, 'msg, 'z, 'c, 'rq, 'rs) env \<Rightarrow> ('m, 'n, 'c) Proxy \<Rightarrow> ('m, 'n, 'c) Proxy \<Rightarrow> passed list \<Rightarrow> bool"
  for env p0 where
  start: "frames_reach env p0 p0 []"
| vm: "frames_reach env p0 p log \<Longrightarrow> process_frame_from_vm env p frame now = (r, q, out) \<Longrightarrow>
    frames_reach env p0 q (if \<exists>b. ToHost b \<in> set out then log @ [(FromVm, frame, now)] else log)"
| host: "frames_reach env p0 p log \<Longrightarrow> process_frame_from_host env p frame now = (r, q, out) \<Longrightarrow>
    frames_reach env p0 q (if out \<noteq> [] then log @ [(FromHost, frame, now)] else log)"

lemma frames_reachable:
  assumes "frames_reach env p q frames" "proxy_reachable env p0 p log"
  shows "proxy_reachable env p0 q (log @ frames)"
  using assms(1)
proof (induction rule: frames_reach.induct)
  case (vm p frames frame now r q out)
  from proxy_reachable.vm[OF vm(3,2)] show ?case by (auto split: if_splits)
next
  case (host p frames frame now r q out)
  from proxy_reachable.host[OF host(3,2)] show ?case by (simp split: if_splits)
qed (use assms(2) in simp)

lemma frames_reach_policy:
  assumes "frames_reach env p q frames" "proxy_wf env p"
  shows "proxy_reachable env p q frames" "proxy_wf env q" "px_allow q = px_allow p" "px_block q = px_block p"
proof -
  show reach: "proxy_reachable env p q frames" using frames_reachable[OF assms(1) proxy_reachable.start] by simp
  show "proxy_wf env q" using reachable_wf[OF reach assms(2)] .
  have "px_allow q = px_allow p \<and> px_block q = px_block p"
    using assms(1)
  proof (induction rule: frames_reach.induct)
    case (vm p' frames frame now r q out)
    have "proxy_wf env p'" using reachable_wf[OF frames_reachable[OF vm(1) proxy_reachable.start] assms(2)] .
    then show ?case using process_vm_step(1)[OF _ vm(2)] vm(3) by (auto simp: frame_step_def only_flowsD)
  next
    case (host p' frames frame now r q out)
    have "proxy_wf env p'" using reachable_wf[OF frames_reachable[OF host(1) proxy_reachable.start] assms(2)] .
    then show ?case using process_host_step(1)[OF _ host(2)] host(3) by (auto simp: frame_step_def only_flowsD)
  qed simp
  then show "px_allow q = px_allow p" "px_block q = px_block p" by simp_all
qed

lemma vm_frame_reach:
  assumes "frames_reach env p0 p log" "vm_frame env p frame now = (e, q, out)"
  shows "\<exists>log'. frames_reach env p0 q log'"
proof (cases frame)
  case (Some f)
  obtain r q' out' where pf: "process_frame_from_vm env p f now = (r, q', out')"
    by (cases "process_frame_from_vm env p f now")
  then have "q = q'" using assms(2) Some by (auto simp: vm_frame_def split: sum.splits)
  then show ?thesis using frames_reach.vm[OF assms(1) pf] by blast
qed (use assms in \<open>auto simp: vm_frame_def\<close>)

lemma vm_burst_reach:
  "frames_reach env p0 p log \<Longrightarrow> vm_burst env p reads = (e, q, out) \<Longrightarrow> \<exists>log'. frames_reach env p0 q log'"
proof (induction env p reads arbitrary: log e q out rule: vm_burst.induct)
  case (2 env p result now reads)
  show ?case
  proof (cases result)
    case (Inr frame)
    obtain e1 p1 out1 where vf: "vm_frame env p frame now = (e1, p1, out1)" by (cases "vm_frame env p frame now")
    obtain log1 where r1: "frames_reach env p0 p1 log1" using vm_frame_reach[OF 2(2) vf] by blast
    show ?thesis
    proof (cases e1)
      case None
      obtain e2 p2 out2 where vb: "vm_burst env p1 reads = (e2, p2, out2)" by (cases "vm_burst env p1 reads")
      have "q = p2" using 2(3) Inr vf None vb by simp
      then show ?thesis using 2(1)[OF Inr vf[symmetric] _ _ r1 vb] None by simp
    qed (use 2(3) Inr vf r1 in auto)
  qed (use 2 in \<open>auto split: if_splits\<close>)
qed auto

lemma on_vm_readable_reach:
  assumes "frames_reach env p0 p log" "on_vm_readable env p result now queued = (e, q, out)"
  shows "\<exists>log'. frames_reach env p0 q log'"
proof (cases result)
  case (Inr frame)
  obtain e1 p1 out1 where vf: "vm_frame env p frame now = (e1, p1, out1)" by (cases "vm_frame env p frame now")
  obtain log1 where r1: "frames_reach env p0 p1 log1" using vm_frame_reach[OF assms(1) vf] by blast
  obtain e2 p2 out2 where vb: "vm_burst env p1 (take 127 queued) = (e2, p2, out2)"
    by (cases "vm_burst env p1 (take 127 queued)")
  show ?thesis
    using assms(2) Inr vf vb r1 vm_burst_reach[OF r1 vb]
    by (auto simp: on_vm_readable_def split: option.splits)
qed (use assms in \<open>auto simp: on_vm_readable_def\<close>)

lemma host_frames_reach:
  "frames_reach env p0 p log \<Longrightarrow> host_frames env p now frames = (e, q, out) \<Longrightarrow>
   \<exists>log'. frames_reach env p0 q log'"
proof (induction env p now frames arbitrary: log e q out rule: host_frames.induct)
  case (3 env p now frame frames)
  obtain r p1 out1 where pf: "process_frame_from_host env p frame now = (r, p1, out1)"
    by (cases "process_frame_from_host env p frame now")
  obtain log1 where r1: "frames_reach env p0 p1 log1" using frames_reach.host[OF 3(2) pf] by blast
  show ?case
  proof (cases r)
    case (Inr u)
    obtain e2 p2 out2 where hf: "host_frames env p1 now frames = (e2, p2, out2)"
      by (cases "host_frames env p1 now frames")
    have "q = p2" using 3(3) Inr pf hf by simp
    then show ?thesis using 3(1)[OF pf[symmetric] Inr _ r1 hf] by simp
  next
    case (Inl err)
    then show ?thesis using 3(3) pf r1 by (auto split: proxy_error.splits)
  qed
qed auto

lemma vm_frame_reachable:
  assumes "proxy_reachable env p0 p log" "vm_frame env p frame now = (e, q, out)"
  shows "\<exists>log'. proxy_reachable env p0 q log'"
  using vm_frame_reach[OF frames_reach.start assms(2)] frames_reachable[OF _ assms(1)] by blast

text \<open>The events that are not commands.\<close>

definition is_command :: "loop_event \<Rightarrow> bool" where
  "is_command event = (case event of CommandReceived _ _ \<Rightarrow> True | _ \<Rightarrow> False)"

lemma select_branch_reach:
  assumes "frames_reach env p0 p log" "select_branch env p event = (e, q, out)" "\<not> is_command event"
  shows "\<exists>log'. frames_reach env p0 q log'"
proof (cases event)
  case (VmReadable result now queued)
  then show ?thesis using assms on_vm_readable_reach by (fastforce simp: select_branch_def)
next
  case (HostReadable result now)
  then show ?thesis
    using assms host_frames_reach[OF assms(1)]
    by (cases result) (auto simp: select_branch_def on_host_readable_def)
next
  case MaintenanceTick
  then show ?thesis using assms by (auto simp: select_branch_def)
qed (use assms(3) in \<open>simp add: is_command_def\<close>)

lemma select_branch_reachable:
  assumes "proxy_reachable env p0 p log" "select_branch env p event = (e, q, out)"
  shows "\<exists>log'. proxy_reachable env p0 q log'"
proof (cases "is_command event")
  case False
  then show ?thesis
    using select_branch_reach[OF frames_reach.start assms(2)] frames_reachable[OF _ assms(1)] by blast
next
  case True
  then obtain command now where event: "event = CommandReceived command now"
    by (auto simp: is_command_def split: loop_event.splits)
  show ?thesis
  proof (cases "\<exists>allow block. command = Some (PolicySet allow block)")
    case True
    then obtain allow block where command: "command = Some (PolicySet allow block)" by blast
    obtain pol q' where ps: "policy_set env p allow block now = (pol, q')"
      by (cases "policy_set env p allow block now")
    then have "q = q'" using assms(2) event command by (simp add: select_branch_def on_command_def)
    then show ?thesis using proxy_reachable.policy[OF assms(1) ps] by blast
  next
    case False
    then have "q = p"
      using assms(2) event by (auto simp: select_branch_def on_command_def split: option.splits Command.splits)
    then show ?thesis using assms(1) by blast
  qed
qed

lemma run_proxy_keeps:
  assumes "\<And>event p e q out. event \<in> set events \<Longrightarrow> R p \<Longrightarrow> select_branch env p event = (e, q, out) \<Longrightarrow> R q"
    and "R p" "run_proxy env p events = (e, q, out)"
  shows "R q"
  using assms
proof (induction events arbitrary: p e q out)
  case (Cons event events)
  obtain e1 p1 out1 where sb: "select_branch env p event = (e1, p1, out1)" by (cases "select_branch env p event")
  have r1: "R p1" using Cons.prems(1)[OF _ Cons.prems(2) sb] by simp
  show ?case
  proof (cases e1)
    case None
    obtain e2 p2 out2 where rp: "run_proxy env p1 events = (e2, p2, out2)" by (cases "run_proxy env p1 events")
    have "q = p2" using Cons.prems(3) sb None rp by simp
    moreover have "R p2" by (rule Cons.IH[OF _ r1 rp]) (rule Cons.prems(1), simp_all)
    ultimately show ?thesis by simp
  qed (use Cons.prems(3) sb r1 in auto)
qed simp

lemma run_proxy_reachable:
  assumes "proxy_reachable env p0 p log" "run_proxy env p events = (e, q, out)"
  shows "\<exists>log'. proxy_reachable env p0 q log'"
proof (rule run_proxy_keeps[OF _ _ assms(2), of "\<lambda>q. \<exists>log. proxy_reachable env p0 q log"])
  show "\<exists>log. proxy_reachable env p0 p log" using assms(1) by blast
qed (use select_branch_reachable in blast)

lemma run_proxy_reach:
  assumes "run_proxy env p events = (e, q, out)" "list_all (Not \<circ> is_command) events"
  shows "\<exists>log. frames_reach env p q log"
proof (rule run_proxy_keeps[OF _ _ assms(1), of "\<lambda>q. \<exists>log. frames_reach env p q log"])
  show "\<exists>log. frames_reach env p p log" using frames_reach.start by blast
qed (use assms(2) select_branch_reach in \<open>fastforce simp: list_all_iff\<close>)

end
