(* ===== verification/Proxy_Properties.thy ===== *)
theory Proxy_Properties
  imports Proxy_Trace
begin

text \<open>
  What the packet proxy guarantees, from its start on and for every sequence of loop events. Policy
  decisions are stated over the flat list of rules (\<open>select_spec\<close>), not over the compiled maps, so
  these properties compose the proxy with the correctness of the rules and of the flow table.
\<close>

section \<open>Specification of the policy\<close>

definition spec_decision ::
  "'z ipnet_ops_scheme \<Rightarrow> ipv4addr \<Rightarrow> ipv4addr list \<Rightarrow> Rule list \<Rightarrow> Rule list \<Rightarrow> Ipv4Packet \<Rightarrow> Direction \<Rightarrow>
   PolicyDecision option" where
  "spec_decision I gateway peers allow block pkt dir =
     (case select_spec I (policy_entries I gateway peers allow block dir)
             (case dir of In \<Rightarrow> src_addr pkt | Out \<Rightarrow> dst_addr pkt)
             (next_header pkt) (map_option snd (packet_ports pkt)) of
        None \<Rightarrow> None
      | Some Block \<Rightarrow> Some DecisionBlock
      | Some Allow \<Rightarrow>
          Some (if list_ex is_stateful_rule (allow @ block) then AllowStateful else AllowStateless))"

definition spec_egress ::
  "('p, 'm, 'n, 'msg, 'z, 'c, 'rq, 'rs) env \<Rightarrow> ipv4addr \<Rightarrow> ipv4addr list \<Rightarrow> Rule list \<Rightarrow> Rule list \<Rightarrow> Ipv4Packet \<Rightarrow>
   bool" where
  "spec_egress env gateway peers allow block pkt =
     (case spec_decision (env_policy env) gateway peers allow block pkt Out of
        None \<Rightarrow> env_is_global env (dst_addr pkt) \<or> dst_addr pkt = gateway
      | Some decision \<Rightarrow> decision \<noteq> DecisionBlock)"

text \<open>An ARP packet that names only the VM's own addresses as its sender.\<close>

definition arp_of_vm :: "EthernetFrame \<Rightarrow> mac \<Rightarrow> ipv4addr \<Rightarrow> bool" where
  "arp_of_vm frame mac vm_ip \<longleftrightarrow>
     (case frame_arp frame of
        Some (Some (EthernetIpv4 operation source address)) \<Rightarrow>
          (operation = ArpRequest \<or> operation = ArpReply) \<and> source = mac \<and> (address = vm_ip \<or> address = 0)
      | _ \<Rightarrow> False)"

lemma policy_decision_spec:
  assumes "policy_api E pm_inv"
  shows "policy_decision E (Rules_new E gateway peers allow block) pkt dir =
    spec_decision E gateway peers allow block pkt dir"
  unfolding policy_decision_def spec_decision_def Let_def policy_api.select_policy[OF assms]
  by (auto simp: policy_mode_def split: option.splits Action.splits)

lemma wf_decision:
  assumes "policy_api (env_policy env) pm_inv" "proxy_wf env p"
  shows "policy_decision (env_policy env) (px_rules p) pkt dir =
    spec_decision (env_policy env) (host_gateway_ip (px_host p)) (peer_ips p) (px_allow p) (px_block p) pkt dir"
  using assms(2) policy_decision_spec[OF assms(1)] by (simp add: proxy_wf_def)

lemma wf_egress:
  assumes "policy_api (env_policy env) pm_inv" "proxy_wf env p"
  shows "outbound_permitted env p pkt =
    spec_egress env (host_gateway_ip (px_host p)) (peer_ips p) (px_allow p) (px_block p) pkt"
  unfolding outbound_permitted_def spec_egress_def wf_decision[OF assms]
  by (auto split: option.splits PolicyDecision.splits)

lemma wf_mode: "proxy_wf env p \<Longrightarrow> px_flows p = None \<longleftrightarrow> \<not> list_ex is_stateful_rule (px_allow p @ px_block p)"
  by (simp add: proxy_wf_def has_stateful_def policy_mode_def)

lemma arp_allowed_iff:
  "frame_arp frame = Some arp \<Longrightarrow>
   allowed_from_vm_arp p arp \<longleftrightarrow> arp_of_vm frame (vm_mac_address p) (host_vm_ip (px_host p))"
  by (auto simp: allowed_from_vm_arp_def vm_arp_allowed_def arp_of_vm_def is_unspecified_def
      split: option.splits ArpRepr.splits)

section \<open>What stays fixed\<close>

definition same_identity :: "('m, 'n, 'c) Proxy \<Rightarrow> ('m, 'n, 'c) Proxy \<Rightarrow> bool" where
  "same_identity p q \<longleftrightarrow> px_vm q = px_vm p \<and> px_host q = px_host p \<and> vm_mac_address q = vm_mac_address p \<and>
     peer_ips q = peer_ips p \<and> dhcp_server q = dhcp_server p \<and> dns_server q = dns_server p"

lemma same_identity_trans: "same_identity p q \<Longrightarrow> same_identity q r \<Longrightarrow> same_identity p r"
  by (simp add: same_identity_def)

lemma frame_step_identity: "frame_step p frame d now ok q \<Longrightarrow> same_identity p q"
  by (auto simp: frame_step_def same_identity_def only_flowsD)

lemma policy_set_identity: "policy_set env p allow block now = (pol, q) \<Longrightarrow> same_identity p q"
  by (auto simp: policy_set_def Let_def same_identity_def split: if_splits)

lemma reachable_identity: "proxy_reachable env p0 p log \<Longrightarrow> proxy_wf env p0 \<Longrightarrow> same_identity p0 p"
proof (induction rule: proxy_reachable.induct)
  case start
  then show ?case by (simp add: same_identity_def)
next
  case (vm p log frame now r q out)
  then show ?case
    using process_vm_step(1)[OF reachable_wf[OF vm(1)]] frame_step_identity same_identity_trans by blast
next
  case (host p log frame now r q out)
  then show ?case
    using process_host_step(1)[OF reachable_wf[OF host(1)]] frame_step_identity same_identity_trans by blast
next
  case (policy p log allow block now pol q)
  then show ?case using policy_set_identity same_identity_trans by blast
qed

lemma Proxy_new_fields:
  assumes "Proxy_new env vm mac vm_ip gateway netmask ips allow block dns now = Inr p"
  shows "px_vm p = vm" "host_vm_ip (px_host p) = vm_ip" "host_gateway_ip (px_host p) = gateway"
    "vm_mac_address p = mac" "peer_ips p = filter (\<lambda>ip. ip \<noteq> vm_ip) ips" "dns_server p = dns"
  using assms by (auto simp: Proxy_new_def Host_new_def Let_def result_iffs)

text \<open>A state of the proxy while it runs, with what is known of it.\<close>

definition running ::
  "('p, 'm, 'n, 'msg, 'z, 'c, 'rq, 'rs) env \<Rightarrow> mac \<Rightarrow> ipv4addr \<Rightarrow> ipv4addr \<Rightarrow> ipv4addr list \<Rightarrow>
   ('n, 'c) DnsServer option \<Rightarrow> ('m, 'n, 'c) Proxy \<Rightarrow> bool" where
  "running env mac vm_ip gateway ips dns p \<longleftrightarrow>
     proxy_wf env p \<and> host_vm_ip (px_host p) = vm_ip \<and> host_gateway_ip (px_host p) = gateway \<and>
     vm_mac_address p = mac \<and> peer_ips p = filter (\<lambda>ip. ip \<noteq> vm_ip) ips \<and> dns_server p = dns"

lemma reachable_running:
  assumes "Proxy_new env vm mac vm_ip gateway netmask ips allow block dns t0 = Inr p0"
    and "proxy_reachable env p0 p log"
  shows "running env mac vm_ip gateway ips dns p"
  using reachable_wf[OF assms(2) Proxy_new_wf(1)[OF assms(1)]]
    reachable_identity[OF assms(2) Proxy_new_wf(1)[OF assms(1)]] Proxy_new_fields[OF assms(1)]
  by (simp add: running_def same_identity_def)

lemma run_running:
  assumes "Proxy_new env vm mac vm_ip gateway netmask ips allow block dns t0 = Inr p0"
    and "run_proxy env p0 events = (e, p, sent)"
  shows "running env mac vm_ip gateway ips dns p"
  using run_proxy_reachable[OF proxy_reachable.start assms(2)] reachable_running[OF assms(1)] by blast

section \<open>A concrete proxy\<close>

definition sample_os :: os where
  "sample_os =
     \<lparr>os_ENOBUFS = 55, os_EDESTADDRREQ = 39, os_SOCK_DGRAM = 2, os_AF_UNIX = 1, os_dup = (\<lambda>fd. Inr (fd + 1)),
      os_getfd = (\<lambda>_. Inr ()), os_socket_type = (\<lambda>_. Inr 2), os_sockname = (\<lambda>_. Inr (16, 1)),
      os_set_nonblocking = (\<lambda>_. Inr ()), os_register = (\<lambda>_. Inr ()),
      os_peer_addr = (\<lambda>_. Inl \<lparr>error_kind = NotConnected, raw_os_error = None\<rparr>),
      os_send = (\<lambda>_ b. Inr (length b))\<rparr>"

definition sample_vmnet :: vmnet where
  "sample_vmnet =
     \<lparr>vn_open = Inr (), vn_max_packet_size = Some 1514, vn_read_max_packets = Some 16,
      vn_set_callback = Inr (), vn_write = (\<lambda>b. Inr (length b)), vn_clear_callback = Inr (),
      vn_finalize = Inr ()\<rparr>"

text \<open>Every address outside of 192.168.0.0/16 counts as global.\<close>

definition sample_env where
  "sample_env =
     \<lparr>env_policy = ref_policy, env_dhcp = ref_dhcp, env_dns = ref_dns,
      env_is_global = (\<lambda>a. drop_bit 16 a \<noteq> 49320), env_os = sample_os, env_vmnet = sample_vmnet\<rparr>"

definition sample_mac :: mac where
  "sample_mac = [2, 0, 0, 0, 0, 9]"

text \<open>The VM 192.168.0.2 behind the gateway 192.168.0.1, with the peer 192.168.0.3.\<close>

definition sample_new where
  "sample_new allow block =
     Proxy_new sample_env \<lparr>sock = 4\<rparr> sample_mac 3232235522 3232235521 4294967288 [3232235522, 3232235523]
       allow block None 0"

definition sample_proxy where
  "sample_proxy allow block = projr (sample_new allow block)"

lemma sample_proxy_new:
  "Proxy_new sample_env \<lparr>sock = 4\<rparr> sample_mac 3232235522 3232235521 4294967288 [3232235522, 3232235523]
     allow block None 0 = Inr (sample_proxy allow block)"
  by (simp add: sample_proxy_def sample_new_def Proxy_new_def Host_new_def Let_def sample_env_def sample_vmnet_def
      and_then_def map_err_def ok_or_def)

definition sample_frame :: "mac \<Rightarrow> Ipv4Packet \<Rightarrow> EthernetFrame" where
  "sample_frame src pkt =
     \<lparr>frame_bytes = [1, 2, 3], frame_src = src, frame_dst = [], frame_ethertype = EtherIpv4, frame_arp = None,
      frame_ipv4_valid = True, frame_ipv4 = pkt\<rparr>"

text \<open>Datagrams between the VM and the server 8.8.8.8.\<close>

definition sample_out :: EthernetFrame where
  "sample_out = sample_frame sample_mac (sample_udp 3232235522 1000 134744072 53)"

definition sample_in :: EthernetFrame where
  "sample_in = sample_frame [] (sample_udp 134744072 53 3232235522 1000)"

lemma sample_api: "policy_api (env_policy sample_env) ref_pm_inv"
  using ref_pol.policy_api_axioms by (simp add: sample_env_def)

section \<open>Properties: the invariant and safety of both directions\<close>

text \<open>
  C17: whatever events the loop handles, from the creation of the proxy on, its state stays
  consistent: the compiled rules are those of the stored policy, a flow table exists exactly for a
  policy with stateful rules and is well formed, and the DHCP server serves this VM.
\<close>

theorem proxy_invariant:
  assumes "Proxy_new env vm mac vm_ip gateway netmask ips allow block dns t0 = Inr p0"
    and "run_proxy env p0 events = (e, p, sent)"
  shows "proxy_wf env p"
  using run_running[OF assms] by (simp add: running_def)

theorem proxy_invariant_witness:
  "\<exists>e p sent. run_proxy sample_env (sample_proxy [] [])
      [VmReadable (Inr (Some sample_out)) 5 [], CommandReceived (Some (PolicySet [] [Stateful In Peers Filter_default])) 6,
       HostReadable (Inr [Some sample_in]) 7] = (e, p, sent) \<and> sent \<noteq> [] \<and> proxy_wf sample_env p"
proof -
  let ?es = "[VmReadable (Inr (Some sample_out)) 5 [],
    CommandReceived (Some (PolicySet [] [Stateful In Peers Filter_default])) 6,
    HostReadable (Inr [Some sample_in]) 7]"
  obtain e p sent where run: "run_proxy sample_env (sample_proxy [] []) ?es = (e, p, sent)"
    by (cases "run_proxy sample_env (sample_proxy [] []) ?es")
  moreover have "snd (snd (run_proxy sample_env (sample_proxy [] []) ?es)) \<noteq> []" by code_simp
  ultimately show ?thesis using proxy_invariant[OF sample_proxy_new run] by auto
qed

lemma vm_frame_genuine:
  assumes "policy_api (env_policy env) pm_inv" and "proxy_wf env p"
    and "process_frame_from_vm env p frame now = (r, q, out)" and "ToHost b \<in> set out"
  shows "b = frame_bytes frame \<and> frame_src frame = vm_mac_address p \<and>
    (frame_ethertype frame = EtherArp \<and> arp_of_vm frame (vm_mac_address p) (host_vm_ip (px_host p)) \<or>
     frame_ethertype frame = EtherIpv4 \<and> frame_ipv4_valid frame \<and> header_len (frame_ipv4 frame) = 20 \<and>
     src_addr (frame_ipv4 frame) = host_vm_ip (px_host p) \<and> \<not> to_dhcp_server (frame_ipv4 frame) \<and>
     (is_return_traffic p (frame_ipv4 frame) FromVm now \<or>
      spec_egress env (host_gateway_ip (px_host p)) (peer_ips p) (px_allow p) (px_block p) (frame_ipv4 frame)))"
proof -
  note step = process_vm_step[OF assms(2,3)]
  obtain q' out' where a: "allowed_from_vm env p frame now = (True, q', out')"
    using step(3) assms(4) by (cases "allowed_from_vm env p frame now") auto
  from a show ?thesis
  proof (cases rule: allowed_from_vm_cases)
    case ipv4
    note eff = vm_ipv4_effect(4,5)[OF ipv4(5) wf_tables[OF assms(2)]]
    show ?thesis
      using ipv4 eff step(2)[OF assms(4)] wf_egress[OF assms(1,2)]
      by (simp add: IPV4_HEADER_LEN_WITHOUT_OPTIONS_def)
  next
    case arp
    then show ?thesis using step(2)[OF assms(4)] by (auto simp: arp_allowed_iff)
  qed
qed

text \<open>
  C1: nothing forged and nothing forbidden leaves the VM. A frame handed to the host network is the
  frame the VM sent, from its own MAC address. It is either an ARP packet that names only the VM's
  addresses, or an option-less IPv4 packet from the VM's address that is not addressed to a DHCP
  server and that answers a flow opened by the other side or that the current policy permits.
\<close>

theorem vm_egress_safe:
  assumes "policy_api (env_policy env) pm_inv"
    and "Proxy_new env vm mac vm_ip gateway netmask ips allow block dns t0 = Inr p0"
    and "run_proxy env p0 events = (e, p, sent)"
    and "process_frame_from_vm env p frame now = (r, q, out)" and "ToHost b \<in> set out"
  shows "b = frame_bytes frame \<and> frame_src frame = mac \<and>
    (frame_ethertype frame = EtherArp \<and> arp_of_vm frame mac vm_ip \<or>
     frame_ethertype frame = EtherIpv4 \<and> frame_ipv4_valid frame \<and> header_len (frame_ipv4 frame) = 20 \<and>
     src_addr (frame_ipv4 frame) = vm_ip \<and> \<not> to_dhcp_server (frame_ipv4 frame) \<and>
     (is_return_traffic p (frame_ipv4 frame) FromVm now \<or>
      spec_egress env gateway (filter (\<lambda>ip. ip \<noteq> vm_ip) ips) (px_allow p) (px_block p) (frame_ipv4 frame)))"
  using vm_frame_genuine[OF assms(1) _ assms(4,5)] run_running[OF assms(2,3)] by (simp add: running_def)

theorem vm_egress_safe_witness:
  "frame_src sample_out = sample_mac \<and> src_addr (frame_ipv4 sample_out) = 3232235522"
proof -
  obtain r q out where f: "process_frame_from_vm sample_env (sample_proxy [] []) sample_out 5 = (r, q, out)"
    by (cases "process_frame_from_vm sample_env (sample_proxy [] []) sample_out 5")
  have "snd (snd (process_frame_from_vm sample_env (sample_proxy [] []) sample_out 5)) = [ToHost [1, 2, 3]]"
    by code_simp
  with f have "ToHost [1, 2, 3] \<in> set out" by simp
  from vm_egress_safe[OF sample_api sample_proxy_new run_proxy.simps(1) f this] show ?thesis
    by (simp add: sample_out_def sample_frame_def)
qed

text \<open>
  C2: what reaches the VM from the network. A delivered frame is the received frame; it is ARP, or
  an IPv4 packet that does not pose as a DHCP server's and, when the policy has stateful rules, is
  for the VM and answers a flow the VM opened, or is for the VM, allowed by the policy and now
  tracked, or is not mentioned by the inbound rules at all.
\<close>

theorem host_ingress_safe:
  assumes "policy_api (env_policy env) pm_inv"
    and "Proxy_new env vm mac vm_ip gateway netmask ips allow block dns t0 = Inr p0"
    and "run_proxy env p0 events = (e, p, sent)"
    and "process_frame_from_host env p frame now = (r, q, out)" and "out \<noteq> []"
  shows "out = [ToVm (frame_bytes frame)] \<and>
    (frame_ethertype frame = EtherArp \<or>
     frame_ethertype frame = EtherIpv4 \<and> frame_ipv4_valid frame \<and> \<not> from_dhcp_server (frame_ipv4 frame) \<and>
     (\<not> list_ex is_stateful_rule (px_allow p @ px_block p) \<or>
      dst_addr (frame_ipv4 frame) = vm_ip \<and> is_return_traffic p (frame_ipv4 frame) FromHost now \<or>
      (case spec_decision (env_policy env) gateway (filter (\<lambda>ip. ip \<noteq> vm_ip) ips) (px_allow p) (px_block p)
              (frame_ipv4 frame) In of
         None \<Rightarrow> True
       | Some decision \<Rightarrow> decision = AllowStateful \<and> dst_addr (frame_ipv4 frame) = vm_ip \<and>
           tracks q (frame_ipv4 frame) FromHost now)))"
proof -
  note run = run_running[OF assms(2,3), unfolded running_def]
  note wf = conjunct1[OF run]
  note step = process_host_step[OF wf assms(4)]
  obtain q' where a: "allowed_from_host env p frame now = (True, q')"
    using step(2) assms(5) by (cases "allowed_from_host env p frame now") auto
  have fl: "px_flows q = px_flows q'"
    using process_host_flows[OF assms(4)] a by simp
  from a show ?thesis
  proof (cases rule: allowed_from_host_cases)
    case ipv4
    note eff = host_ipv4_effect(3-5)[OF ipv4(3) wf_tables[OF wf]]
    have "tracks q' pkt d t = tracks q pkt d t" for pkt d t by (simp add: tracks_def fl)
    then show ?thesis
      using eff ipv4(1,2) step(3)[OF assms(5)] run unfolding inbound_permitted_def wf_mode[OF wf] wf_decision[OF assms(1) wf]
      by (auto split: option.splits)
  next
    case arp
    then show ?thesis using step(3)[OF assms(5)] by simp
  qed
qed

text \<open>A policy that allows nothing but datagrams the VM sends to port 53 of any host.\<close>

definition dns_only where
  "dns_only = Stateful Out (Prefix (Ipv4Net 0 0))
     \<lparr>protocol = Some Udp, destination_port_range = Some \<lparr>pr_start = 53, pr_end = 53\<rparr>\<rparr>"

definition block_all where
  "block_all = Stateless (Prefix (Ipv4Net 0 0))"

theorem host_ingress_safe_witness:
  "\<exists>p r q. run_proxy sample_env (sample_proxy [dns_only] [block_all]) [VmReadable (Inr (Some sample_out)) 5 []] =
      (None, p, [ToHost [1, 2, 3]]) \<and>
    process_frame_from_host sample_env p sample_in 9 = (r, q, [ToVm [1, 2, 3]]) \<and>
    is_return_traffic p (frame_ipv4 sample_in) FromHost 9"
proof -
  let ?run = "run_proxy sample_env (sample_proxy [dns_only] [block_all]) [VmReadable (Inr (Some sample_out)) 5 []]"
  let ?p = "fst (snd ?run)"
  let ?in = "process_frame_from_host sample_env ?p sample_in 9"
  have "fst ?run = None" "snd (snd ?run) = [ToHost [1, 2, 3]]" "snd (snd ?in) = [ToVm [1, 2, 3]]"
    by code_simp+
  then obtain p r q where run: "?run = (None, p, [ToHost [1, 2, 3]])"
    and pin: "process_frame_from_host sample_env p sample_in 9 = (r, q, [ToVm [1, 2, 3]])"
    by (metis prod.collapse)
  have "spec_decision (env_policy sample_env) 3232235521 (filter (\<lambda>ip. ip \<noteq> 3232235522) [3232235522, 3232235523])
      (px_allow ?p) (px_block ?p) (frame_ipv4 sample_in) In = Some DecisionBlock"
    "list_ex is_stateful_rule (px_allow ?p @ px_block ?p)" "frame_ethertype sample_in = EtherIpv4"
    by code_simp+
  with host_ingress_safe[OF sample_api sample_proxy_new run pin] run pin show ?thesis by auto
qed

section \<open>Properties: flows across the two directions\<close>

lemma return_traffic_opened:
  assumes "flows_opened p log" "is_return_traffic p pkt d now"
  shows "\<exists>frame t. (opposite d, frame, t) \<in> set log \<and> frame_ethertype frame = EtherIpv4 \<and> frame_ipv4_valid frame \<and>
    packet_key (frame_ipv4 frame) (opposite d) = packet_key pkt d \<and> now < t + flow_timeout (frame_ipv4 frame)"
proof -
  obtain t key f where t: "px_flows p = Some t" and key: "packet_key pkt d = Some key"
    and live: "live_flow t now key = Some f" and dir: "initiating_direction f \<noteq> d"
    using assms(2) by (auto simp: is_return_traffic_def return_traffic_def split: option.splits)
  have "hm_get (flows t) key = Some f" "now < expires_at f"
    using live by (auto simp: live_flow_def split: option.splits if_splits)
  moreover have "initiating_direction f = opposite d"
    using dir by (cases d; cases "initiating_direction f") simp_all
  ultimately show ?thesis
    using assms(1) t key unfolding flows_opened_def opened_by_def by metis
qed

text \<open>
  C6: no unsolicited traffic. When the inbound rules block an IPv4 packet and it is delivered all
  the same, then under the current policy an earlier packet of the VM with the same tuple was let
  through to the network, and its flow has not timed out.
\<close>

theorem no_unsolicited_ingress:
  assumes "policy_api (env_policy env) pm_inv"
    and "Proxy_new env vm mac vm_ip gateway netmask ips allow block dns t0 = Inr p0"
    and "proxy_reachable env p0 p log"
    and "process_frame_from_host env p frame now = (r, q, out)" and "out \<noteq> []"
    and "frame_ethertype frame = EtherIpv4" and "list_ex is_stateful_rule (px_allow p @ px_block p)"
    and "spec_decision (env_policy env) gateway (filter (\<lambda>ip. ip \<noteq> vm_ip) ips) (px_allow p) (px_block p)
      (frame_ipv4 frame) In = Some DecisionBlock"
  shows "\<exists>request t. (FromVm, request, t) \<in> set log \<and> frame_ethertype request = EtherIpv4 \<and>
    packet_key (frame_ipv4 request) FromVm = packet_key (frame_ipv4 frame) FromHost \<and>
    now < t + flow_timeout (frame_ipv4 request)"
proof -
  note run = reachable_running[OF assms(2,3), unfolded running_def]
  note wf = conjunct1[OF run]
  obtain q' where a: "allowed_from_host env p frame now = (True, q')"
    using process_host_step(2)[OF wf assms(4)] assms(5) by (cases "allowed_from_host env p frame now") auto
  from a have "is_return_traffic p (frame_ipv4 frame) FromHost now"
  proof (cases rule: allowed_from_host_cases)
    case ipv4
    then show ?thesis
      using host_ipv4_effect(4)[OF ipv4(3) wf_tables[OF wf]] assms(7,8) run wf_mode[OF wf]
        wf_decision[OF assms(1) wf] by (simp add: inbound_permitted_def)
  qed (use assms(6) in simp)
  moreover have "flows_opened p log"
    using reachable_opened[OF assms(3) Proxy_new_wf[OF assms(2)]] by simp
  ultimately show ?thesis using return_traffic_opened[of p log _ FromHost] by fastforce
qed

theorem no_unsolicited_ingress_witness:
  "\<exists>p log r q. proxy_reachable sample_env (sample_proxy [dns_only] [block_all]) p log \<and>
    process_frame_from_host sample_env p sample_in 9 = (r, q, [ToVm [1, 2, 3]]) \<and>
    (\<exists>request t. (FromVm, request, t) \<in> set log)"
proof -
  let ?start = "sample_proxy [dns_only] [block_all]"
  let ?out = "process_frame_from_vm sample_env ?start sample_out 5"
  let ?p = "fst (snd ?out)"
  let ?in = "process_frame_from_host sample_env ?p sample_in 9"
  have s: "snd (snd ?in) = [ToVm [1, 2, 3]]" "frame_ethertype sample_in = EtherIpv4"
    "list_ex is_stateful_rule (px_allow ?p @ px_block ?p)"
    "spec_decision (env_policy sample_env) 3232235521 (filter (\<lambda>ip. ip \<noteq> 3232235522) [3232235522, 3232235523])
      (px_allow ?p) (px_block ?p) (frame_ipv4 sample_in) In = Some DecisionBlock"
    by code_simp+
  obtain r p out where vm: "?out = (r, p, out)" by (cases ?out)
  obtain r' q where pin: "process_frame_from_host sample_env p sample_in 9 = (r', q, [ToVm [1, 2, 3]])"
    using s(1) vm by (cases "process_frame_from_host sample_env p sample_in 9") auto
  obtain log where reach: "proxy_reachable sample_env ?start p log"
    using proxy_reachable.vm[OF proxy_reachable.start vm] by blast
  show ?thesis
    using no_unsolicited_ingress[OF sample_api sample_proxy_new reach pin _ s(2)] s(3,4) vm reach pin
    by (auto simp del: split_paired_Ex)
qed



section \<open>Properties: policies\<close>

text \<open>Truncating every prefix of a rule changes no entry that a packet can match.\<close>

definition trunc_entry :: "'z ipnet_ops_scheme \<Rightarrow> entry \<Rightarrow> entry" where
  "trunc_entry I = (\<lambda>(p, f, a). (net_trunc I p, f, a))"

lemma trunc_entry_spec:
  assumes "ipnet_api I"
  shows "select_spec I (map (trunc_entry I) es) addr pr po = select_spec I es addr pr po"
proof -
  have "entry_matches I addr pr po (trunc_entry I e) = entry_matches I addr pr po e" for e
    by (cases e) (simp add: trunc_entry_def entry_matches_filter ipnet_api.contains_trunc[OF assms])
  moreover have "entry_priority (trunc_entry I e) = entry_priority e" for e
    by (cases e) (simp add: trunc_entry_def ipnet_api.trunc_len[OF assms])
  ultimately show ?thesis by (simp add: select_spec_def filter_map comp_def)
qed

lemma normalized_entries:
  assumes "ipnet_api I"
  shows "rule_entries I gateway peers mode dir a (Rule_normalized I rule) =
    map (trunc_entry I) (rule_entries I gateway peers mode dir a rule)"
proof -
  have "target_prefixes I gateway peers (Target_normalized I t) = map (net_trunc I) (target_prefixes I gateway peers t)" for t
    by (cases t) (simp_all add: ipnet_api.from_addr_trunc[OF assms])
  then show ?thesis by (cases rule) (auto simp: rule_entries_def trunc_entry_def)
qed

lemma normalized_policy_entries:
  assumes "ipnet_api I"
  shows "set (policy_entries I gateway peers (normalize_rules I allow) (normalize_rules I block) dir) =
    set (map (trunc_entry I) (policy_entries I gateway peers allow block dir))"
proof -
  have "is_stateful_rule (Rule_normalized I r) = is_stateful_rule r" for r by (cases r) simp_all
  then have "policy_mode (normalize_rules I allow) (normalize_rules I block) = policy_mode allow block"
    by (auto simp: policy_mode_def list_ex_iff normalize_set)
  then show ?thesis
    by (simp add: policy_entries_def Let_def normalize_set normalized_entries[OF assms] image_UN image_Un)
qed

lemma spec_decision_normalized:
  assumes "policy_api E pm_inv"
  shows "spec_decision E gateway peers (normalize_rules E allow) (normalize_rules E block) pkt dir =
    spec_decision E gateway peers allow block pkt dir"
proof -
  have api: "ipnet_api E" using assms by (simp add: policy_api_def)
  have "is_stateful_rule (Rule_normalized E r) = is_stateful_rule r" for r by (cases r) simp_all
  then show ?thesis
    unfolding spec_decision_def
      policy_api.select_spec_cong[OF assms normalized_policy_entries[OF api]] trunc_entry_spec[OF api]
    by (auto simp: list_ex_iff normalize_set split: option.splits Action.splits)
qed

text \<open>
  C23: storing rules in normalized form (truncated prefixes, sorted, without duplicates) never
  changes which action is selected, and two lists are stored alike exactly when they name the same
  normalized rules, so comparing the stored lists detects every real change of a policy.
\<close>

theorem normalize_preserves_policy:
  assumes "policy_api E pm_inv"
  shows "select E (Rules_new E gateway peers (normalize_rules E allow) (normalize_rules E block)) =
      select E (Rules_new E gateway peers allow block) \<and>
    normalize_rules E (normalize_rules E allow) = normalize_rules E allow \<and>
    (list_all Rule_wf (allow @ block) \<longrightarrow>
       (normalize_rules E allow = normalize_rules E block \<longleftrightarrow>
        Rule_normalized E ` set allow = Rule_normalized E ` set block) \<and>
       distinct (normalize_rules E allow))"
proof (intro conjI impI)
  have api: "ipnet_api E" using assms by (simp add: policy_api_def)
  show "select E (Rules_new E gateway peers (normalize_rules E allow) (normalize_rules E block)) =
      select E (Rules_new E gateway peers allow block)"
    using policy_api.select_spec_cong[OF assms normalized_policy_entries[OF api]]
    by (intro ext) (simp add: policy_api.select_policy[OF assms] trunc_entry_spec[OF api])
  show "normalize_rules E (normalize_rules E allow) = normalize_rules E allow"
    using api by (rule normalize_idem)
  assume wf: "list_all Rule_wf (allow @ block)"
  then show "normalize_rules E allow = normalize_rules E block \<longleftrightarrow>
      Rule_normalized E ` set allow = Rule_normalized E ` set block"
    using normalize_unique(1)[OF api, of allow block] normalize_set[of E]
    unfolding list_all_iff set_append by metis
  show "distinct (normalize_rules E allow)"
    using normalize_unique(2)[OF api, of allow allow] wf by (simp add: list_all_iff)
qed

theorem normalize_preserves_policy_witness:
  "select ref_policy (Rules_new ref_policy 1 [] (normalize_rules ref_policy
      [Stateless (Prefix (Ipv4Net 167772165 8)), Stateless (Prefix (Ipv4Net 167772160 8))]) (normalize_rules ref_policy [])) =
   select ref_policy (Rules_new ref_policy 1 []
      [Stateless (Prefix (Ipv4Net 167772165 8)), Stateless (Prefix (Ipv4Net 167772160 8))] [])"
  using normalize_preserves_policy[OF ref_pol.policy_api_axioms, of 1 "[]"
      "[Stateless (Prefix (Ipv4Net 167772165 8)), Stateless (Prefix (Ipv4Net 167772160 8))]" "[]"] by blast

text \<open>
  C24: replacing the policy takes effect at once and completely. The stored lists and the compiled
  rules become those of the request, the answer reports them, and nothing but rules and flows
  changes. When the request is the stored policy the proxy is left as it is, with its flows;
  otherwise every flow is forgotten. Sending back a reported policy changes nothing.
\<close>

theorem policy_set_exact:
  assumes "policy_api (env_policy env) pm_inv" and "proxy_wf env p"
    and "policy_set env p allow block now = (pol, q)"
  shows "px_allow q = normalize_rules (env_policy env) allow \<and>
    px_block q = normalize_rules (env_policy env) block \<and>
    px_rules q = Rules_new (env_policy env) (host_gateway_ip (px_host p)) (peer_ips p) (px_allow q) (px_block q) \<and>
    pol = policy_get env q \<and> same_identity p q \<and> enobufs_encountered q = enobufs_encountered p \<and>
    (if px_allow q = px_allow p \<and> px_block q = px_block p then q = p
     else px_flows q = (if list_ex is_stateful_rule (px_allow q @ px_block q) then Some (FlowTable_new now) else None)) \<and>
    policy_set env q (pol_allow pol) (pol_block pol) later = (pol, q)"
proof -
  have api: "ipnet_api (env_policy env)" using assms(1) by (simp add: policy_api_def)
  have pol: "pol = policy_get env q" using assms(3) by (auto simp: policy_set_def Let_def)
  have lists: "px_allow q = normalize_rules (env_policy env) allow" "px_block q = normalize_rules (env_policy env) block"
    using assms(3) by (auto simp: policy_set_def Let_def split: if_splits)
  moreover have "policy_set env q (pol_allow pol) (pol_block pol) later = (pol, q)"
    using pol lists normalize_idem[OF api] by (simp add: policy_set_def policy_get_def Let_def)
  moreover note id = policy_set_identity[OF assms(3)]
  moreover have "px_rules q = Rules_new (env_policy env) (host_gateway_ip (px_host p)) (peer_ips p) (px_allow q) (px_block q)"
    using policy_set_wf[OF assms(2,3)] id by (simp add: proxy_wf_def same_identity_def)
  moreover from assms(3) have "enobufs_encountered q = enobufs_encountered p \<and>
      (if px_allow q = px_allow p \<and> px_block q = px_block p then q = p
       else px_flows q = (if list_ex is_stateful_rule (px_allow q @ px_block q) then Some (FlowTable_new now) else None))"
    by (cases rule: policy_set_cases) (auto simp: new_flows_def has_stateful_def policy_mode_def)
  ultimately show ?thesis using pol by simp
qed

theorem policy_set_exact_witness:
  "\<exists>pol q. policy_set sample_env (sample_proxy [dns_only] []) [] [block_all] 7 = (pol, q) \<and>
     px_flows q = None \<and> policy_set sample_env q (pol_allow pol) (pol_block pol) 9 = (pol, q)"
proof -
  let ?p = "sample_proxy [dns_only] []"
  obtain pol q where set: "policy_set sample_env ?p [] [block_all] 7 = (pol, q)"
    by (cases "policy_set sample_env ?p [] [block_all] 7")
  have "px_allow ?p \<noteq> normalize_rules (env_policy sample_env) []"
    "\<not> list_ex is_stateful_rule (normalize_rules (env_policy sample_env) [] @
       normalize_rules (env_policy sample_env) [block_all])" by code_simp+
  then show ?thesis
    using policy_set_exact[OF sample_api Proxy_new_wf(1)[OF sample_proxy_new] set, of 9] set by auto
qed

section \<open>Properties: stateless policies\<close>

lemma consume_dhcp_skip: "\<not> to_dhcp_server pkt \<Longrightarrow> consume_dhcp env p pkt = (False, p, [])"
  by (auto simp: consume_dhcp_def to_dhcp_server_def)

lemma legacy_outbound:
  assumes "proxy_wf env p" "px_flows p = None"
  shows "fst (outbound_decision env p None pkt) = outbound_permitted env p pkt"
proof -
  have mode: "rules_mode (px_rules p) = LegacyMode"
    using assms by (cases "rules_mode (px_rules p)") (auto simp: proxy_wf_def has_stateful_def)
  then have "policy_decision (env_policy env) (px_rules p) pkt Out \<noteq> Some AllowStateful"
    by (auto simp: policy_decision_def Let_def split: Action.splits)
  then show ?thesis
    using mode by (auto simp: outbound_decision_def outbound_permitted_def admit_with_tracking_if_stateful_def
        is_stateful_def admit_with_tracking_if_trackable_def split: option.splits PolicyDecision.splits)
qed

lemma legacy_vm_ipv4:
  assumes "proxy_wf env p" "px_flows p = None" "\<not> fst (consume_dns env p mac pkt)"
  shows "fst (allowed_from_vm_ipv4 env p mac pkt now) \<longleftrightarrow>
    src_addr pkt = host_vm_ip (px_host p) \<and> \<not> to_dhcp_server pkt \<and> outbound_permitted env p pkt"
proof (cases "to_dhcp_server pkt")
  case True
  then show ?thesis
    using consume_dhcp_effect(2)[of env p pkt]
    by (cases "consume_dhcp env p pkt") (auto simp: allowed_from_vm_ipv4_def)
next
  case False
  obtain p2 out2 where dns: "consume_dns env p mac pkt = (False, p2, out2)"
    using assms(3) by (cases "consume_dns env p mac pkt") auto
  note k = only_enobufsD[OF consume_dns_effect(1)[OF dns]]
  have wf2: "proxy_wf env p2" using assms(1) by (simp add: proxy_wf_def k)
  have "outbound_permitted env p2 pkt = outbound_permitted env p pkt" by (simp only: outbound_permitted_def k)
  then show ?thesis
    using False dns legacy_outbound[OF wf2, of pkt] assms(2) k(1)
    by (auto simp: allowed_from_vm_ipv4_def consume_dhcp_skip inspect_flows_def split: prod.splits)
qed



section \<open>Properties: the select loop\<close>

definition to_host :: "proxy_output list \<Rightarrow> bytes list" where
  "to_host out = List.map_filter (\<lambda>x. case x of ToHost b \<Rightarrow> Some b | ToVm _ \<Rightarrow> None) out"

lemma to_host_simps [simp]: "to_host [] = []" "to_host (x # xs) = (case x of ToHost b \<Rightarrow> [b] | ToVm _ \<Rightarrow> []) @ to_host xs"
  "to_host (xs @ ys) = to_host xs @ to_host ys"
  by (simp_all add: to_host_def map_filter_def split: proxy_output.splits)

lemma to_host_vm: "\<forall>x \<in> set out. \<exists>b. x = ToVm b \<Longrightarrow> to_host out = []"
  by (induction out) auto

lemma allowed_from_vm_outputs:
  assumes "allowed_from_vm env p frame now = (ok, q, out)"
  shows "to_host out = []"
  using assms
proof (cases rule: allowed_from_vm_cases)
  case ipv4
  obtain c p1 out1 where dhcp: "consume_dhcp env p (frame_ipv4 frame) = (c, p1, out1)"
    by (cases "consume_dhcp env p (frame_ipv4 frame)")
  obtain e p2 out2 where dns: "consume_dns env p1 (frame_dst frame) (frame_ipv4 frame) = (e, p2, out2)"
    by (cases "consume_dns env p1 (frame_dst frame) (frame_ipv4 frame)")
  obtain m p3 where ins: "inspect_flows p2 (frame_ipv4 frame) FromVm now = (m, p3)"
    by (cases "inspect_flows p2 (frame_ipv4 frame) FromVm now")
  have "to_host out1 = []" "to_host out2 = []"
    using consume_dhcp_effect(3)[OF dhcp] consume_dns_effect(2)[OF dns] to_host_vm by auto
  then show ?thesis
    using vm_ipv4_cases[OF ipv4(5) dhcp dns ins only_enobufsD(3)[OF consume_dhcp_effect(1)[OF dhcp]]] by force
qed simp

lemma vm_frame_outputs: "vm_frame env p frame now = (e, q, out) \<Longrightarrow> length (to_host out) \<le> 1"
  by (auto simp: vm_frame_def process_frame_from_vm_def dest: allowed_from_vm_outputs
      split: option.splits bool.splits prod.splits sum.splits)

lemma vm_burst_outputs: "vm_burst env p reads = (e, q, out) \<Longrightarrow> length (to_host out) \<le> length reads"
proof (induction env p reads arbitrary: e q out rule: vm_burst.induct)
  case (2 env p result now reads)
  show ?case
  proof (cases result)
    case (Inr frame)
    obtain e1 p1 out1 where vf: "vm_frame env p frame now = (e1, p1, out1)" by (cases "vm_frame env p frame now")
    obtain e2 p2 out2 where vb: "vm_burst env p1 reads = (e2, p2, out2)" by (cases "vm_burst env p1 reads")
    show ?thesis
    proof (cases e1)
      case None
      then show ?thesis
        using 2(1)[OF Inr vf[symmetric] _ _ vb] 2(2) Inr vf vb vm_frame_outputs[OF vf] by auto
    qed (use 2(2) Inr vf vm_frame_outputs[OF vf] in auto)
  qed (use 2 in \<open>auto split: if_splits\<close>)
qed simp

text \<open>
  The VM cannot keep the loop to itself. One turn of the loop that is woken by the VM handles
  its frame and what else is queued, but sends at most 128 frames to the network before the host,
  the commands and the timer get their turn.
\<close>

theorem vm_burst_bounded:
  "length (to_host (snd (snd (on_vm_readable env p result now queued)))) \<le> 128"
proof (cases result)
  case (Inr frame)
  obtain e1 p1 out1 where vf: "vm_frame env p frame now = (e1, p1, out1)" by (cases "vm_frame env p frame now")
  obtain e2 p2 out2 where vb: "vm_burst env p1 (take 127 queued) = (e2, p2, out2)"
    by (cases "vm_burst env p1 (take 127 queued)")
  show ?thesis
    using vm_frame_outputs[OF vf] vm_burst_outputs[OF vb] Inr vf vb
    by (cases e1) (auto simp: on_vm_readable_def)
qed (simp add: on_vm_readable_def)

text \<open>The operating system reports that the other end of the VM's socket is gone.\<close>

definition vm_disconnected :: "('p, 'm, 'n, 'msg, 'z, 'c, 'rq, 'rs) env \<Rightarrow> ('m, 'n, 'c) Proxy \<Rightarrow> bool" where
  "vm_disconnected env p =
     (case os_peer_addr (env_os env) (sock (px_vm p)) of Inl e \<Rightarrow> error_kind e = NotConnected | Inr _ \<Rightarrow> False)"

lemma vm_read_error_ok: "vm_read_error env p err (VmReadFailed err') = ExitOk \<Longrightarrow> vm_disconnected env p"
  "vm_read_error env p err (VmWriteFailed err') = ExitOk \<Longrightarrow> vm_disconnected env p"
  by (auto simp: vm_read_error_def is_disconnect_def is_connected_def and_then_def vm_disconnected_def
      split: sum.splits if_splits)

lemma reached_disconnected:
  assumes "proxy_wf env p" "\<exists>log. proxy_reachable env p q log"
  shows "vm_disconnected env q = vm_disconnected env p" "proxy_wf env q"
  using assms reachable_identity reachable_wf by (fastforce simp: vm_disconnected_def same_identity_def)+

lemma vm_frame_exit [simp]: "vm_frame env p frame now \<noteq> (Some ExitOk, q, out)"
  by (auto simp: vm_frame_def split: option.splits prod.splits sum.splits)

lemma vm_burst_exit: "proxy_wf env p \<Longrightarrow> vm_burst env p reads = (Some ExitOk, q, out) \<Longrightarrow> vm_disconnected env p"
proof (induction env p reads arbitrary: q out rule: vm_burst.induct)
  case (2 env p result now reads)
  show ?case
  proof (cases result)
    case (Inl err)
    then show ?thesis using 2(3) vm_read_error_ok(1) by (auto split: if_splits)
  next
    case (Inr frame)
    obtain e1 p1 out1 where vf: "vm_frame env p frame now = (e1, p1, out1)" by (cases "vm_frame env p frame now")
    have e1: "e1 = None" using 2(3) Inr vf by (cases e1) auto
    then obtain q2 out2 where vb: "vm_burst env p1 reads = (Some ExitOk, q2, out2)"
      using 2(3) Inr vf by (auto split: prod.splits)
    note keep = reached_disconnected[OF 2(2) vm_frame_reachable[OF proxy_reachable.start vf]]
    then show ?thesis using 2(1)[OF Inr vf[symmetric] _ _ _ vb] e1 by simp
  qed
qed simp

lemma host_frames_exit:
  "proxy_wf env p \<Longrightarrow> host_frames env p now frames = (Some ExitOk, q, out) \<Longrightarrow> vm_disconnected env p"
proof (induction env p now frames arbitrary: q out rule: host_frames.induct)
  case (3 env p now frame frames)
  obtain r p1 out1 where pf: "process_frame_from_host env p frame now = (r, p1, out1)"
    by (cases "process_frame_from_host env p frame now")
  have "\<exists>log. proxy_reachable env p p1 log" using proxy_reachable.host[OF proxy_reachable.start pf] by blast
  note keep = reached_disconnected[OF 3(2) this]
  show ?case
  proof (cases r)
    case (Inl err)
    then show ?thesis using 3(3) pf keep vm_read_error_ok(2) by (auto split: proxy_error.splits)
  next
    case (Inr u)
    then obtain q2 out2 where hf: "host_frames env p1 now frames = (Some ExitOk, q2, out2)"
      using 3(3) pf by (auto split: prod.splits)
    then show ?thesis using 3(1)[OF pf[symmetric] Inr _ _ hf] keep by simp
  qed
qed auto

lemma select_branch_exit:
  assumes "proxy_wf env p" "select_branch env p event = (Some ExitOk, q, out)"
  shows "(\<exists>now. event = CommandReceived None now) \<or> vm_disconnected env p"
proof (cases event)
  case (VmReadable result now queued)
  show ?thesis
  proof (cases result)
    case (Inl err)
    then show ?thesis using assms(2) VmReadable vm_read_error_ok(1)
      by (auto simp: select_branch_def on_vm_readable_def)
  next
    case (Inr frame)
    obtain e1 p1 out1 where vf: "vm_frame env p frame now = (e1, p1, out1)" by (cases "vm_frame env p frame now")
    obtain q2 out2 where "vm_burst env p1 (take 127 queued) = (Some ExitOk, q2, out2)"
      using assms(2) VmReadable Inr vf
      by (cases e1) (auto simp: select_branch_def on_vm_readable_def split: prod.splits)
    then show ?thesis
      using vm_burst_exit reached_disconnected[OF assms(1) vm_frame_reachable[OF proxy_reachable.start vf]] by blast
  qed
next
  case (HostReadable result now)
  then show ?thesis
    using assms host_frames_exit by (cases result) (auto simp: select_branch_def on_host_readable_def)
qed (use assms in \<open>auto simp: select_branch_def on_command_def on_maintenance_def is_connected_def
    vm_disconnected_def split: sum.splits if_splits option.splits prod.splits Command.splits\<close>)

text \<open>
  C25: the loop reports success only for a reason. A run that ends without an error has either seen
  its command channel closed by the manager, or the operating system has confirmed that the VM's
  end of the socket is gone; a failed read or write alone is never taken for an orderly end.
\<close>

theorem run_exit_justified:
  assumes "proxy_wf env p" and "run_proxy env p events = (Some ExitOk, q, out)"
  shows "(\<exists>now. CommandReceived None now \<in> set events) \<or> vm_disconnected env p"
  using assms
proof (induction env p events arbitrary: q out rule: run_proxy.induct)
  case (2 env p event events)
  obtain e1 p1 out1 where sb: "select_branch env p event = (e1, p1, out1)" by (cases "select_branch env p event")
  note keep = reached_disconnected[OF 2(2) select_branch_reachable[OF proxy_reachable.start sb]]
  show ?case
  proof (cases e1)
    case None
    then obtain q2 out2 where "run_proxy env p1 events = (Some ExitOk, q2, out2)"
      using 2(3) sb by (auto split: prod.splits)
    then show ?thesis using 2(1)[OF sb[symmetric] _ _ keep(2)] None keep(1) by auto
  next
    case (Some x)
    then show ?thesis using 2(3) sb select_branch_exit[OF 2(2)] by fastforce
  qed
qed simp

theorem run_exit_justified_witness:
  "\<exists>q out. run_proxy sample_env (sample_proxy [] []) [MaintenanceTick] = (Some ExitOk, q, out) \<and>
     vm_disconnected sample_env (sample_proxy [] [])"
proof -
  have "fst (run_proxy sample_env (sample_proxy [] []) [MaintenanceTick]) = Some ExitOk" by code_simp
  then obtain q out where run: "run_proxy sample_env (sample_proxy [] []) [MaintenanceTick] = (Some ExitOk, q, out)"
    by (metis prod.collapse)
  show ?thesis
    using run_exit_justified[OF Proxy_new_wf(1)[OF sample_proxy_new] run] run by auto
qed

end
