(* ===== verification/Subnet_Finder.thy ===== *)
theory Subnet_Finder
  imports Ipnet
begin

unbundle bit_operations_syntax

text \<open>
  Choosing a private subnet for the VMs (\<open>lib/subnet_finder/mod.rs\<close>). The \<open>ipnet\<close> operations it uses
  beyond those of the rule language, the random generator and the list of network interfaces are
  parameters; the loop of at most 128 attempts is a recursion on the attempts left.
\<close>

section \<open>Interfaces of the crates\<close>

record subnet_ops = ipnet_ops +
  net_new :: "ipv4addr \<Rightarrow> u8 \<Rightarrow> Ipv4Net option"
  net_with_netmask :: "ipv4addr \<Rightarrow> ipv4addr \<Rightarrow> Ipv4Net option"
  net_network :: "Ipv4Net \<Rightarrow> ipv4addr"
  net_broadcast :: "Ipv4Net \<Rightarrow> ipv4addr"
  net_netmask :: "Ipv4Net \<Rightarrow> ipv4addr"
  net_hosts :: "Ipv4Net \<Rightarrow> ipv4addr list"

text \<open>\<open>SliceRandom::choose\<close> and \<open>IteratorRandom::choose\<close> on an address range, by attempt.\<close>

record rng =
  rng_choose :: "nat \<Rightarrow> Ipv4Net list \<Rightarrow> Ipv4Net option"
  rng_choose_addr :: "nat \<Rightarrow> ipv4addr \<Rightarrow> ipv4addr \<Rightarrow> ipv4addr option"

text \<open>The addresses of one network interface (\<open>network_interface::Addr\<close>).\<close>

datatype if_addr = AddrV4 ipv4addr "ipv4addr option" | AddrV6

section \<open>The finder\<close>

datatype subnet_error =
    SubnetParseFailed
  | ShowInterfacesFailed
  | InterfaceHasNoNetmask
  | InvalidNetmask
  | InvalidPrefixLen
  | SubnetPanic
  | NoSubnetFound

definition MAX_ATTEMPTS :: nat where
  "MAX_ATTEMPTS = 128"

definition private_subnets :: "'z ipnet_ops_scheme \<Rightarrow> subnet_error + Ipv4Net list" where
  "private_subnets I =
     collect_results (map (\<lambda>s. ok_or SubnetParseFailed (net_from_str I s))
       [''10.0.0.0/8'', ''172.16.0.0/12'', ''192.168.0.0/18'', ''192.168.64.0/19'', ''192.168.96.0/22''])"

fun used_subnets :: "'z subnet_ops_scheme \<Rightarrow> if_addr list \<Rightarrow> subnet_error + Ipv4Net list" where
  "used_subnets I [] = Inr []"
| "used_subnets I (AddrV6 # addrs) = used_subnets I addrs"
| "used_subnets I (AddrV4 ip netmask # addrs) =
     and_then (ok_or InterfaceHasNoNetmask netmask) (\<lambda>m.
       and_then (ok_or InvalidNetmask (net_with_netmask I ip m)) (\<lambda>n.
         and_then (used_subnets I addrs) (\<lambda>ns. Inr (n # ns))))"

definition overlaps :: "'z ipnet_ops_scheme \<Rightarrow> Ipv4Net list \<Rightarrow> Ipv4Net \<Rightarrow> bool" where
  "overlaps I used candidate \<longleftrightarrow>
     list_ex (\<lambda>used_subnet. net_contains I candidate used_subnet \<or> net_contains I used_subnet candidate) used"

text \<open>One attempt: \<open>None\<close> to go on, or the subnet with its first two hosts.\<close>

definition try_subnet ::
  "'z subnet_ops_scheme \<Rightarrow> rng \<Rightarrow> Ipv4Net list \<Rightarrow> Ipv4Net list \<Rightarrow> u8 \<Rightarrow> nat \<Rightarrow>
   subnet_error + (ipv4addr \<times> ipv4addr \<times> Ipv4Net) option" where
  "try_subnet I R private used prefix_len attempt =
     and_then (ok_or SubnetPanic (rng_choose R attempt private)) (\<lambda>private_subnet.
       if prefix_len < net_prefix_len private_subnet then Inr None
       else and_then (ok_or SubnetPanic (rng_choose_addr R attempt (net_network I private_subnet)
                        (net_broadcast I private_subnet))) (\<lambda>address.
         and_then (ok_or InvalidPrefixLen (net_new I address prefix_len)) (\<lambda>n.
           let candidate = net_trunc I n
           in if overlaps I used candidate then Inr None
              else (case net_hosts I candidate of
                      first_host # second_host # _ \<Rightarrow> Inr (Some (first_host, second_host, candidate))
                    | _ \<Rightarrow> Inr None))))"

fun find_subnet ::
  "'z subnet_ops_scheme \<Rightarrow> rng \<Rightarrow> Ipv4Net list \<Rightarrow> Ipv4Net list \<Rightarrow> u8 \<Rightarrow> nat \<Rightarrow>
   subnet_error + (ipv4addr \<times> ipv4addr \<times> Ipv4Net)" where
  "find_subnet I R private used prefix_len 0 = Inl NoSubnetFound"
| "find_subnet I R private used prefix_len (Suc n) =
     (case try_subnet I R private used prefix_len (MAX_ATTEMPTS - Suc n) of
        Inl e \<Rightarrow> Inl e
      | Inr (Some found) \<Rightarrow> Inr found
      | Inr None \<Rightarrow> find_subnet I R private used prefix_len n)"

definition find_available_subnet ::
  "'z subnet_ops_scheme \<Rightarrow> rng \<Rightarrow> if_addr list list option \<Rightarrow> u8 \<Rightarrow>
   subnet_error + (ipv4addr \<times> ipv4addr \<times> Ipv4Net)" where
  "find_available_subnet I R interfaces prefix_len =
     and_then (private_subnets I) (\<lambda>private.
       and_then (ok_or ShowInterfacesFailed interfaces) (\<lambda>ifs.
         and_then (used_subnets I (concat ifs)) (\<lambda>used.
           find_subnet I R private used prefix_len MAX_ATTEMPTS)))"

section \<open>Blocks of addresses\<close>

text \<open>The addresses of a prefix: those that agree with it on the first bits.\<close>

definition in_net :: "Ipv4Net \<Rightarrow> ipv4addr \<Rightarrow> bool" where
  "in_net n a \<longleftrightarrow> a AND net_mask (net_prefix_len n) = net_addr n AND net_mask (net_prefix_len n)"

definition host_bits :: "Ipv4Net \<Rightarrow> nat" where
  "host_bits n = 32 - unat (net_prefix_len n)"

definition block_start :: "Ipv4Net \<Rightarrow> nat" where
  "block_start n = unat (net_addr n) div 2 ^ host_bits n * 2 ^ host_bits n"

lemma addr_less: "unat (a :: ipv4addr) < 2 ^ 32"
proof -
  have "unat a < 2 ^ LENGTH(32)" by (rule unsigned_less)
  then show ?thesis by simp
qed

lemma unat_and_net_mask: "unat (a AND net_mask len) = unat a div 2 ^ (32 - unat len) * 2 ^ (32 - unat len)"
  for a :: ipv4addr
proof -
  let ?k = "32 - unat len"
  have "a AND net_mask len = push_bit ?k (drop_bit ?k a)"
    by (rule bit_word_eqI) (auto simp: net_mask_def bit_simps)
  moreover have "unat a div 2 ^ ?k * 2 ^ ?k < 2 ^ 32"
    using div_times_less_eq_dividend[of "unat a" "2 ^ ?k"] addr_less[of a] by linarith
  moreover have "unat (push_bit ?k (drop_bit ?k a)) = take_bit 32 (push_bit ?k (drop_bit ?k (unat a)))"
    using addr_less[of a] by (simp add: unsigned_push_bit_eq unsigned_drop_bit_eq take_bit_nat_eq_self)
  ultimately show ?thesis by (simp add: push_bit_eq_mult drop_bit_eq_div take_bit_eq_mod)
qed

lemma div_block: "0 < (k::nat) \<Longrightarrow> x div k = q \<longleftrightarrow> q * k \<le> x \<and> x < q * k + k"
  by (metis add.commute div_nat_eqI div_times_less_eq_dividend dividend_less_times_div mult.commute mult_Suc)

lemma in_net_block: "in_net n a \<longleftrightarrow> block_start n \<le> unat a \<and> unat a < block_start n + 2 ^ host_bits n"
proof -
  have "in_net n a \<longleftrightarrow> unat a div 2 ^ host_bits n * 2 ^ host_bits n = block_start n"
    unfolding in_net_def block_start_def host_bits_def by (simp only: unat_and_net_mask word_unat_eq_iff)
  then show ?thesis using div_block[of "2 ^ host_bits n" "unat a"] by (simp add: block_start_def)
qed

lemma block_fits: "block_start n + 2 ^ host_bits n \<le> 2 ^ 32"
proof -
  let ?k = "host_bits n"
  have "(2::nat) ^ 32 = 2 ^ (32 - ?k) * 2 ^ ?k" by (simp add: host_bits_def flip: power_add)
  moreover have "unat (net_addr n) div 2 ^ ?k < 2 ^ (32 - ?k)"
    using addr_less[of "net_addr n"] calculation by (simp add: less_mult_imp_div_less)
  then have "(unat (net_addr n) div 2 ^ ?k + 1) * 2 ^ ?k \<le> 2 ^ (32 - ?k) * 2 ^ ?k"
    by (intro mult_right_mono) simp_all
  ultimately show ?thesis by (simp add: block_start_def)
qed

lemma unat_network: "unat (net_addr n AND net_mask (net_prefix_len n)) = block_start n"
  by (simp add: unat_and_net_mask block_start_def host_bits_def)

lemma unat_mask_bits: "unat (mask (host_bits n) :: ipv4addr) = 2 ^ host_bits n - 1"
proof -
  have "unat (of_nat (mask (host_bits n)) :: ipv4addr) = take_bit 32 (mask (host_bits n))"
    by (simp add: unsigned_of_nat)
  moreover have "(2::nat) ^ host_bits n \<le> 2 ^ 32" by (rule power_increasing) (simp_all add: host_bits_def)
  then have "mask (host_bits n) < (2::nat) ^ 32" unfolding mask_eq_exp_minus_1 by simp
  ultimately show ?thesis by (simp add: of_nat_mask_eq take_bit_nat_eq_self mask_eq_exp_minus_1)
qed

lemma unat_broadcast: "Suc (unat (net_addr n OR NOT (net_mask (net_prefix_len n)))) = block_start n + 2 ^ host_bits n"
proof -
  let ?m = "net_mask (net_prefix_len n)"
  have "net_addr n OR NOT ?m = (net_addr n AND ?m) + mask (host_bits n)"
    unfolding net_mask_def host_bits_def
    by (subst disjunctive_add) (auto intro!: bit_word_eqI simp: bit_simps)
  moreover have "unat ((net_addr n AND ?m) + mask (host_bits n)) = block_start n + (2 ^ host_bits n - 1)"
    using block_fits[of n] unat_network[of n] unat_mask_bits[of n]
    by (simp add: unat_word_ariths less_eq_Suc_le[symmetric])
  ultimately show ?thesis by simp
qed

lemma broadcast_ge: "block_start n \<le> unat (net_addr n OR NOT (net_mask (net_prefix_len n)))"
  using unat_broadcast[of n] zero_less_power[of "2::nat" "host_bits n"] by linarith

lemma in_net_nested:
  assumes "net_prefix_len p \<le> net_prefix_len q" "in_net p a" "in_net q a" "in_net q b"
  shows "in_net p b"
proof -
  have "net_mask (net_prefix_len q) AND net_mask (net_prefix_len p) = net_mask (net_prefix_len p)"
    using assms(1) by (intro bit_word_eqI) (auto simp: net_mask_def bit_simps word_le_nat_alt)
  then have m: "x AND net_mask (net_prefix_len p) =
      (x AND net_mask (net_prefix_len q)) AND net_mask (net_prefix_len p)" for x
    by (simp add: and.assoc)
  show ?thesis using assms(2-4) m[of b] m[of a] by (simp add: in_net_def)
qed

section \<open>The laws\<close>

locale subnet_api = ipnet_api I
  for I :: "'z subnet_ops_scheme" +
  assumes parse_private:
      "net_from_str I ''10.0.0.0/8'' = Some (Ipv4Net 167772160 8)"
      "net_from_str I ''172.16.0.0/12'' = Some (Ipv4Net 2886729728 12)"
      "net_from_str I ''192.168.0.0/18'' = Some (Ipv4Net 3232235520 18)"
      "net_from_str I ''192.168.64.0/19'' = Some (Ipv4Net 3232251904 19)"
      "net_from_str I ''192.168.96.0/22'' = Some (Ipv4Net 3232260096 22)"
    and new: "net_new I a len = (if len \<le> 32 then Some (Ipv4Net a len) else None)"
    and with_netmask: "net_with_netmask I a m = Some n \<Longrightarrow> net_valid n \<and> net_addr n = a"
    and network: "net_network I n = net_addr n AND net_mask (net_prefix_len n)"
    and broadcast: "net_broadcast I n = net_addr n OR NOT (net_mask (net_prefix_len n))"
    and trunc: "net_trunc I n = Ipv4Net (net_network I n) (net_prefix_len n)"
    and contains: "net_valid p \<Longrightarrow> net_valid q \<Longrightarrow>
      net_contains I p q \<longleftrightarrow> net_network I p \<le> net_network I q \<and> net_broadcast I q \<le> net_broadcast I p"
    and hosts: "net_prefix_len n \<le> 30 \<Longrightarrow>
      net_hosts I n = map of_nat [Suc (unat (net_network I n)) ..< unat (net_broadcast I n)]"
begin

lemma in_net_bounds: "in_net n a \<longleftrightarrow> net_network I n \<le> a \<and> a \<le> net_broadcast I n"
  by (auto simp: in_net_block network broadcast word_le_nat_alt unat_network simp flip: unat_broadcast)

lemma network_in_net: "in_net n (net_network I n)" "in_net n (net_broadcast I n)"
  by (simp_all add: in_net_block network broadcast unat_network broadcast_ge flip: unat_broadcast)
    (simp add: unat_broadcast)

lemma common_address:
  assumes "net_valid p" "net_valid q" "in_net p a" "in_net q a"
  shows "net_contains I p q \<or> net_contains I q p"
proof -
  have "net_contains I p q" if "net_valid p" "net_valid q" "in_net p a" "in_net q a"
    "net_prefix_len p \<le> net_prefix_len q" for p q
    using that in_net_nested[OF that(5,3,4)] network_in_net[of q] in_net_bounds[of p] contains by blast
  then show ?thesis using assms by (cases "net_prefix_len p \<le> net_prefix_len q") (auto simp: not_le)
qed

lemma private_subnets_eq:
  "private_subnets I = Inr [Ipv4Net 167772160 8, Ipv4Net 2886729728 12, Ipv4Net 3232235520 18,
     Ipv4Net 3232251904 19, Ipv4Net 3232260096 22]"
  by (simp add: private_subnets_def parse_private ok_or_def)

lemma used_subnets_valid: "used_subnets I addrs = Inr ns \<Longrightarrow> n \<in> set ns \<Longrightarrow> net_valid n"
proof (induction addrs arbitrary: ns)
  case (Cons a addrs)
  then show ?case by (cases a) (auto simp: result_iffs dest: with_netmask)
qed simp

lemma used_subnets_all:
  "used_subnets I addrs = Inr ns \<Longrightarrow> AddrV4 ip (Some m) \<in> set addrs \<Longrightarrow> net_with_netmask I ip m = Some n \<Longrightarrow>
   n \<in> set ns"
proof (induction addrs arbitrary: ns)
  case (Cons a addrs)
  then show ?case by (cases a) (auto simp: result_iffs dest: with_netmask)
qed simp

end

locale rng_api =
  fixes R :: rng
  assumes choose: "xs \<noteq> [] \<Longrightarrow> \<exists>x \<in> set xs. rng_choose R i xs = Some x"
    and choose_addr: "lo \<le> hi \<Longrightarrow> \<exists>a. rng_choose_addr R i lo hi = Some a \<and> lo \<le> a \<and> a \<le> hi"

section \<open>Computing instances\<close>

definition ref_subnet :: subnet_ops where
  "ref_subnet =
     \<lparr>net_from_str = ref_from_str, net_to_string = ref_to_string, net_default = Ipv4Net 0 0,
      net_from_addr = (\<lambda>a. Ipv4Net a 32), net_trunc = ref_trunc, net_contains = ref_contains,
      net_new = (\<lambda>a len. if len \<le> 32 then Some (Ipv4Net a len) else None),
      net_with_netmask = (\<lambda>a m. map_option (Ipv4Net a) (find (\<lambda>len. net_mask len = m) (map of_nat [0..<33]))),
      net_network = (\<lambda>n. net_addr n AND net_mask (net_prefix_len n)),
      net_broadcast = (\<lambda>n. net_addr n OR NOT (net_mask (net_prefix_len n))),
      net_netmask = (\<lambda>n. net_mask (net_prefix_len n)),
      net_hosts = (\<lambda>n. map of_nat [Suc (unat (net_addr n AND net_mask (net_prefix_len n))) ..<
        unat (net_addr n OR NOT (net_mask (net_prefix_len n)))])\<rparr>"

definition ref_rng :: rng where
  "ref_rng =
     \<lparr>rng_choose = (\<lambda>i xs. if xs = [] then None else Some (xs ! (i mod length xs))),
      rng_choose_addr = (\<lambda>i lo hi. if lo \<le> hi then Some lo else None)\<rparr>"

interpretation ref_rng_api: rng_api ref_rng
  by unfold_locales (auto simp: ref_rng_def)

lemma ref_contains_bounds:
  assumes "net_valid p" "net_valid q"
  shows "ref_contains p q \<longleftrightarrow> net_network ref_subnet p \<le> net_network ref_subnet q \<and>
    net_broadcast ref_subnet q \<le> net_broadcast ref_subnet p"
proof -
  have blocks: "net_network ref_subnet p \<le> net_network ref_subnet q \<and>
      net_broadcast ref_subnet q \<le> net_broadcast ref_subnet p \<longleftrightarrow>
    block_start p \<le> block_start q \<and> block_start q + 2 ^ host_bits q \<le> block_start p + 2 ^ host_bits p"
    unfolding word_le_nat_alt
    by (simp add: ref_subnet_def unat_network flip: unat_broadcast)
  have own: "in_net q (net_addr q)" by (simp add: in_net_def)
  have lens: "net_prefix_len p \<le> net_prefix_len q \<longleftrightarrow> host_bits q \<le> host_bits p"
    using assms by (auto simp: host_bits_def net_valid_def word_le_nat_alt)
  show ?thesis
  proof
    assume c: "ref_contains p q"
    then have len: "net_prefix_len p \<le> net_prefix_len q" and "in_net p (net_addr q)"
      by (simp_all add: ref_contains_def in_net_def)
    note nested = in_net_nested[OF len this(2) own]
    have "in_net p (net_addr q AND net_mask (net_prefix_len q))"
      by (rule nested) (simp add: in_net_def and.assoc)
    moreover have "in_net p (net_addr q OR NOT (net_mask (net_prefix_len q)))"
      by (rule nested) (simp add: in_net_block broadcast_ge flip: unat_broadcast)
    ultimately show "net_network ref_subnet p \<le> net_network ref_subnet q \<and>
        net_broadcast ref_subnet q \<le> net_broadcast ref_subnet p"
      unfolding blocks in_net_block unat_network using unat_broadcast[of q] by simp
  next
    assume "net_network ref_subnet p \<le> net_network ref_subnet q \<and> net_broadcast ref_subnet q \<le> net_broadcast ref_subnet p"
    then have b: "block_start p \<le> block_start q" "block_start q + 2 ^ host_bits q \<le> block_start p + 2 ^ host_bits p"
      unfolding blocks by simp_all
    then have "(2::nat) ^ host_bits q \<le> 2 ^ host_bits p" by linarith
    then have "net_prefix_len p \<le> net_prefix_len q" unfolding lens by simp
    moreover have "in_net p (net_addr q)" using own b unfolding in_net_block by linarith
    ultimately show "ref_contains p q" by (simp add: ref_contains_def in_net_def)
  qed
qed

interpretation ref_subnet_api: subnet_api ref_subnet
proof (intro subnet_api.intro subnet_api_axioms.intro)
  show "ipnet_api ref_subnet"
    by (rule ipnet_api_cong[OF ref_net.ipnet_api_axioms]) (simp_all add: ref_subnet_def ref_ipnet_def)
  fix p q :: Ipv4Net
  assume "net_valid p" "net_valid q"
  then show "net_contains ref_subnet p q \<longleftrightarrow> net_network ref_subnet p \<le> net_network ref_subnet q \<and>
      net_broadcast ref_subnet q \<le> net_broadcast ref_subnet p"
    using ref_contains_bounds by (simp add: ref_subnet_def)
next
  fix a m n
  assume "net_with_netmask ref_subnet a m = Some n"
  then obtain l where "n = Ipv4Net a l" "l \<in> set (map of_nat [0..<33])"
    by (auto simp: ref_subnet_def find_Some_iff)
  then show "net_valid n \<and> net_addr n = a"
    by (auto simp: net_valid_def word_le_nat_alt unat_of_nat)
qed (code_simp, code_simp, code_simp, code_simp, code_simp, simp_all add: ref_subnet_def ref_trunc_def)

section \<open>Lemmas: the search\<close>

context subnet_api
begin

lemma trunc_in_net: "in_net (net_trunc I n) a \<longleftrightarrow> in_net n a"
  by (simp add: in_net_def trunc network and.assoc)

lemma two_hosts:
  assumes "net_prefix_len n \<le> 30"
  shows "\<exists>h1 h2 hs. net_hosts I n = h1 # h2 # hs \<and> h1 \<noteq> h2 \<and> in_net n h1 \<and> in_net n h2"
proof -
  let ?s = "block_start n"
  have "2 \<le> host_bits n" using assms by (simp add: host_bits_def word_le_nat_alt)
  then have "(2::nat) ^ 2 \<le> 2 ^ host_bits n" by (intro power_increasing) simp_all
  then have room: "?s + 3 \<le> unat (net_broadcast I n)" using unat_broadcast[of n] by (simp add: broadcast)
  then have "[Suc ?s ..< unat (net_broadcast I n)] = Suc ?s # Suc (Suc ?s) # [Suc (Suc (Suc ?s)) ..< unat (net_broadcast I n)]"
    by (simp add: upt_conv_Cons)
  moreover have "net_hosts I n = map of_nat [Suc ?s ..< unat (net_broadcast I n)]"
    using hosts[OF assms] by (simp add: network unat_network)
  moreover have small: "unat (of_nat (Suc ?s) :: ipv4addr) = Suc ?s" "unat (of_nat (Suc (Suc ?s)) :: ipv4addr) = Suc (Suc ?s)"
    using room addr_less[of "net_broadcast I n"] by (simp_all only: unsigned_of_nat) (simp_all add: take_bit_nat_eq_self)
  then have "(of_nat (Suc ?s) :: ipv4addr) \<noteq> of_nat (Suc (Suc ?s))" by (metis n_not_Suc_n)
  moreover have "in_net n (of_nat (Suc ?s))" "in_net n (of_nat (Suc (Suc ?s)))"
    unfolding in_net_block small using room unat_broadcast[of n] by (simp_all add: broadcast)
  ultimately show ?thesis by simp
qed

lemma hosts_usable:
  assumes "net_prefix_len n \<le> 30"
  shows "length (net_hosts I n) = 2 ^ host_bits n - 2" "distinct (net_hosts I n)" "a \<in> set (net_hosts I n) \<Longrightarrow> in_net n a"
proof -
  let ?hosts = "[Suc (block_start n) ..< unat (net_broadcast I n)]"
  have eq: "net_hosts I n = map of_nat ?hosts"
    using hosts[OF assms] by (simp add: network unat_network)
  have unat: "unat (of_nat i :: ipv4addr) = i" if "i \<in> set ?hosts" for i
    using that addr_less[of "net_broadcast I n"] by (simp add: unsigned_of_nat take_bit_nat_eq_self)
  show "length (net_hosts I n) = 2 ^ host_bits n - 2"
    using unat_broadcast[of n] by (simp add: eq broadcast)
  have "inj_on (of_nat :: nat \<Rightarrow> ipv4addr) (set ?hosts)" by (rule inj_onI) (metis unat)
  then show "distinct (net_hosts I n)" by (simp add: eq distinct_map)
  assume "a \<in> set (net_hosts I n)"
  then obtain i where "i \<in> set ?hosts" "a = of_nat i" unfolding eq by auto
  then show "in_net n a"
    using unat[of i] unat_broadcast[of n] unfolding in_net_block by (simp add: broadcast)
qed

lemma try_subnet_eq:
  assumes "rng_api R" "private \<noteq> []" "prefix_len \<le> 30"
  shows "\<exists>range a. range \<in> set private \<and> rng_choose R i private = Some range \<and> in_net range a \<and>
    rng_choose_addr R i (net_network I range) (net_broadcast I range) = Some a \<and>
    (let candidate = net_trunc I (Ipv4Net a prefix_len)
     in if prefix_len < net_prefix_len range \<or> overlaps I used candidate
        then try_subnet I R private used prefix_len i = Inr None
        else \<exists>h1 h2 hs. net_hosts I candidate = h1 # h2 # hs \<and> h1 \<noteq> h2 \<and> in_net candidate h1 \<and> in_net candidate h2 \<and>
          try_subnet I R private used prefix_len i = Inr (Some (h1, h2, candidate)))"
proof -
  obtain range where r: "range \<in> set private" "rng_choose R i private = Some range"
    using rng_api.choose[OF assms(1,2)] by blast
  have "net_network I range \<le> net_broadcast I range" using network_in_net(1)[of range] in_net_bounds by blast
  then obtain a where a: "rng_choose_addr R i (net_network I range) (net_broadcast I range) = Some a" "in_net range a"
    using rng_api.choose_addr[OF assms(1)] in_net_bounds by blast
  let ?c = "net_trunc I (Ipv4Net a prefix_len)"
  have "net_prefix_len ?c \<le> 30" using assms(3) by (simp add: trunc_len)
  then obtain h1 h2 hs where h: "net_hosts I ?c = h1 # h2 # hs" "h1 \<noteq> h2" "in_net ?c h1" "in_net ?c h2"
    using two_hosts by blast
  have "prefix_len \<le> 32" using assms(3) by (rule order_trans) simp
  then have "(let candidate = ?c
     in if prefix_len < net_prefix_len range \<or> overlaps I used candidate
        then try_subnet I R private used prefix_len i = Inr None
        else \<exists>h1 h2 hs. net_hosts I candidate = h1 # h2 # hs \<and> h1 \<noteq> h2 \<and> in_net candidate h1 \<and> in_net candidate h2 \<and>
          try_subnet I R private used prefix_len i = Inr (Some (h1, h2, candidate)))"
    using r a h by (auto simp: try_subnet_def Let_def new ok_or_def and_then_def)
  with r a show ?thesis by blast
qed

end

lemma find_subnet_attempt:
  "find_subnet I R private used prefix_len n = Inr found \<Longrightarrow> n \<le> MAX_ATTEMPTS \<Longrightarrow>
   \<exists>i < MAX_ATTEMPTS. try_subnet I R private used prefix_len i = Inr (Some found)"
proof (induction n)
  case (Suc n)
  then show ?case
    by (auto simp: MAX_ATTEMPTS_def split: sum.splits option.splits intro: exI[of _ "MAX_ATTEMPTS - Suc n"])
qed simp

lemma find_subnet_fails:
  assumes total: "\<And>i. \<exists>r. try_subnet I R private used prefix_len i = Inr r"
  shows "find_subnet I R private used prefix_len n = Inl e \<Longrightarrow> n \<le> MAX_ATTEMPTS \<Longrightarrow>
    e = NoSubnetFound \<and> (\<forall>i. MAX_ATTEMPTS - n \<le> i \<longrightarrow> i < MAX_ATTEMPTS \<longrightarrow>
      try_subnet I R private used prefix_len i = Inr None)"
proof (induction n)
  case (Suc n)
  have none: "try_subnet I R private used prefix_len (MAX_ATTEMPTS - Suc n) = Inr None"
    and rest: "find_subnet I R private used prefix_len n = Inl e"
    using Suc.prems(1) total[of "MAX_ATTEMPTS - Suc n"] by (auto split: option.splits)
  show ?case
  proof (intro conjI allI impI)
    show "e = NoSubnetFound" using Suc.IH[OF rest] Suc.prems(2) by simp
    fix i assume "MAX_ATTEMPTS - Suc n \<le> i" "i < MAX_ATTEMPTS"
    then show "try_subnet I R private used prefix_len i = Inr None"
      using Suc.IH[OF rest] Suc.prems(2) none by (cases "i = MAX_ATTEMPTS - Suc n") auto
  qed
qed simp

section \<open>Properties\<close>

text \<open>The ranges of RFC 1918, the last one narrowed to third octets up to 99.\<close>

definition private_addr :: "ipv4addr \<Rightarrow> bool" where
  "private_addr a \<longleftrightarrow>
     167772160 \<le> a \<and> a \<le> 184549375 \<or> 2886729728 \<le> a \<and> a \<le> 2887778303 \<or> 3232235520 \<le> a \<and> a \<le> 3232261119"

lemma private_ranges:
  assumes "n \<in> set [Ipv4Net 167772160 8, Ipv4Net 2886729728 12, Ipv4Net 3232235520 18,
     Ipv4Net 3232251904 19, Ipv4Net 3232260096 22]" and "in_net n a"
  shows "private_addr a"
proof -
  have "net_network ref_subnet n \<le> a \<and> a \<le> net_broadcast ref_subnet n"
    using assms(2) ref_subnet_api.in_net_bounds by blast
  then show ?thesis
    using assms(1) by (auto simp: ref_subnet_def net_mask_def private_addr_def mask_eq_exp_minus_1 word_le_nat_alt)
qed

lemma found_subnet:
  assumes "subnet_api I" and "rng_api R" and "prefix_len \<le> 30"
    and "find_available_subnet I R (Some interfaces) prefix_len = Inr (h1, h2, subnet)"
  shows "net_prefix_len subnet = prefix_len \<and> h1 \<noteq> h2 \<and> in_net subnet h1 \<and> in_net subnet h2 \<and>
    (\<exists>hs. net_hosts I subnet = h1 # h2 # hs) \<and>
    (\<forall>a. in_net subnet a \<longrightarrow> private_addr a) \<and>
    (\<forall>ip netmask taken a. AddrV4 ip (Some netmask) \<in> set (concat interfaces) \<and>
       net_with_netmask I ip netmask = Some taken \<and> in_net taken a \<longrightarrow> \<not> in_net subnet a)"
proof -
  let ?private = "[Ipv4Net 167772160 8, Ipv4Net 2886729728 12, Ipv4Net 3232235520 18, Ipv4Net 3232251904 19,
    Ipv4Net 3232260096 22]"
  note api = assms(1)
  obtain used where used: "used_subnets I (concat interfaces) = Inr used"
    and found: "find_subnet I R ?private used prefix_len MAX_ATTEMPTS = Inr (h1, h2, subnet)"
    using assms(4) unfolding find_available_subnet_def subnet_api.private_subnets_eq[OF api]
    by (auto simp: result_iffs)
  then obtain i where att: "try_subnet I R ?private used prefix_len i = Inr (Some (h1, h2, subnet))"
    using find_subnet_attempt by blast
  obtain range a where range: "range \<in> set ?private" "in_net range a" "net_prefix_len range \<le> prefix_len"
    and sub: "subnet = net_trunc I (Ipv4Net a prefix_len)" and free: "\<not> overlaps I used subnet"
    and hosts: "\<exists>hs. net_hosts I subnet = h1 # h2 # hs" "h1 \<noteq> h2" "in_net subnet h1" "in_net subnet h2"
    using subnet_api.try_subnet_eq[OF api assms(2) _ assms(3), of ?private i used] att
    unfolding Let_def by (auto simp: not_less split: if_splits)
  have len: "net_prefix_len subnet = prefix_len"
    using subnet_api.trunc[OF api] by (simp add: sub)
  have a: "in_net subnet a" unfolding sub subnet_api.trunc_in_net[OF api] by (simp add: in_net_def)
  have "private_addr b" if "in_net subnet b" for b
    using private_ranges[OF range(1)] in_net_nested[OF _ range(2) a that] range(3) len by simp
  moreover have "\<not> in_net subnet b" if "AddrV4 ip (Some m) \<in> set (concat interfaces)"
    "net_with_netmask I ip m = Some taken" "in_net taken b" for ip m taken b
  proof
    assume "in_net subnet b"
    moreover have "net_valid subnet" using assms(3) len order_trans[of prefix_len 30 32] by (simp add: net_valid_def)
    moreover have "net_valid taken" using subnet_api.with_netmask[OF api that(2)] by blast
    ultimately have "net_contains I subnet taken \<or> net_contains I taken subnet"
      using subnet_api.common_address[OF api] that(3) by blast
    moreover have "taken \<in> set used" using subnet_api.used_subnets_all[OF api used that(1,2)] .
    ultimately show False using free by (auto simp: overlaps_def list_ex_iff)
  qed
  ultimately show ?thesis using len hosts by blast
qed

text \<open>
  C26: the subnet given to the VMs has the requested size and two usable host addresses, lies inside
  the private address space, and has no address in common with the subnet of any interface of the
  host.
\<close>

theorem subnet_found_safe:
  assumes "subnet_api I" and "rng_api R" and "prefix_len \<le> 30"
    and "find_available_subnet I R (Some interfaces) prefix_len = Inr (h1, h2, subnet)"
  shows "net_prefix_len subnet = prefix_len \<and> h1 \<noteq> h2 \<and> in_net subnet h1 \<and> in_net subnet h2 \<and>
    (\<exists>hs. net_hosts I subnet = h1 # h2 # hs) \<and>
    (\<forall>a. in_net subnet a \<longrightarrow> private_addr a) \<and>
    (\<forall>ip netmask taken a. AddrV4 ip (Some netmask) \<in> set (concat interfaces) \<and>
       net_with_netmask I ip netmask = Some taken \<and> in_net taken a \<longrightarrow> \<not> in_net subnet a)"
  using assms by (rule found_subnet)

text \<open>A host whose first private range is taken by a LAN.\<close>

definition sample_interfaces :: "if_addr list list" where
  "sample_interfaces = [[AddrV6, AddrV4 167772165 (Some 4278190080)], [AddrV4 2130706433 (Some 4278190080)]]"

theorem subnet_found_safe_witness:
  "in_net (Ipv4Net 2886729728 29) 2886729729 \<and> private_addr 2886729735 \<and>
   find_available_subnet ref_subnet ref_rng (Some sample_interfaces) 29 =
     Inr (2886729729, 2886729730, Ipv4Net 2886729728 29)"
proof -
  have found: "find_available_subnet ref_subnet ref_rng (Some sample_interfaces) 29 =
      Inr (2886729729, 2886729730, Ipv4Net 2886729728 29)" by code_simp
  moreover have "in_net (Ipv4Net 2886729728 29) 2886729735" by code_simp
  ultimately show ?thesis
    using subnet_found_safe[OF ref_subnet_api.subnet_api_axioms ref_rng_api.rng_api_axioms _ found] by simp
qed

text \<open>
  C27: the search always ends with a result and never panics. When the host's interfaces can be read
  it succeeds exactly if one of its 128 attempts draws a large enough range and a free subnet, and
  otherwise it reports that no subnet was found.
\<close>

theorem subnet_search_complete:
  assumes "subnet_api I" and "rng_api R" and "prefix_len \<le> 30"
    and "used_subnets I (concat interfaces) = Inr used" and "private_subnets I = Inr private"
  shows "if \<exists>i range a. i < MAX_ATTEMPTS \<and> rng_choose R i private = Some range \<and>
      rng_choose_addr R i (net_network I range) (net_broadcast I range) = Some a \<and>
      net_prefix_len range \<le> prefix_len \<and> \<not> overlaps I used (net_trunc I (Ipv4Net a prefix_len))
    then \<exists>found. find_available_subnet I R (Some interfaces) prefix_len = Inr found
    else find_available_subnet I R (Some interfaces) prefix_len = Inl NoSubnetFound"
proof -
  have ne: "private \<noteq> []" using assms(5) subnet_api.private_subnets_eq[OF assms(1)] by auto
  note att = subnet_api.try_subnet_eq[OF assms(1,2) ne assms(3), where used = used]
  have total: "\<exists>r. try_subnet I R private used prefix_len i = Inr r" for i
    using att[of i] unfolding Let_def by (auto split: if_splits)
  have find: "find_available_subnet I R (Some interfaces) prefix_len = find_subnet I R private used prefix_len MAX_ATTEMPTS"
    using assms(4,5) by (simp add: find_available_subnet_def ok_or_def and_then_def)
  have some: "(\<exists>range a. rng_choose R i private = Some range \<and>
      rng_choose_addr R i (net_network I range) (net_broadcast I range) = Some a \<and>
      net_prefix_len range \<le> prefix_len \<and> \<not> overlaps I used (net_trunc I (Ipv4Net a prefix_len))) \<longleftrightarrow>
    try_subnet I R private used prefix_len i \<noteq> Inr None" for i
    using att[of i] unfolding Let_def by (auto simp: not_less split: if_splits)
  show ?thesis
  proof (cases "find_subnet I R private used prefix_len MAX_ATTEMPTS")
    case (Inl e)
    then show ?thesis using find_subnet_fails[OF total Inl] find some by auto
  next
    case (Inr found)
    then obtain i where "i < MAX_ATTEMPTS" "try_subnet I R private used prefix_len i \<noteq> Inr None"
      using find_subnet_attempt[OF Inr order_refl] by auto
    then show ?thesis using find Inr some[of i] by (cases found) auto
  qed
qed

theorem subnet_search_complete_witness:
  "find_available_subnet ref_subnet ref_rng (Some [[AddrV4 1 (Some 0)]]) 29 = Inl NoSubnetFound"
proof -
  have used: "used_subnets ref_subnet (concat [[AddrV4 1 (Some 0)]]) = Inr [Ipv4Net 1 0]" by code_simp
  have "net_contains ref_subnet (Ipv4Net 1 0) n" for n
    by (simp add: ref_subnet_def ref_contains_def)
  then have "overlaps ref_subnet [Ipv4Net 1 0] n" for n by (simp add: overlaps_def)
  then show ?thesis
    using subnet_search_complete[OF ref_subnet_api.subnet_api_axioms ref_rng_api.rng_api_axioms _ used
        ref_subnet_api.private_subnets_eq, of 29] by simp
qed

end
