(* ===== verification/Exposed_Port.thy ===== *)
theory Exposed_Port
  imports Prelude
begin

text \<open>
  Port forwarding specifications \<open>EXTERNAL:INTERNAL\<close> (\<open>lib/proxy/exposed_port.rs\<close>).
\<close>

record ExposedPort =
  external_port :: u16
  internal_port :: u16

datatype exposed_port_error =
    InvalidExternalPort string int_error
  | InvalidInternalPort string int_error
  | InvalidSpecification string

definition ExposedPort_from_str :: "string \<Rightarrow> exposed_port_error + ExposedPort" where
  "ExposedPort_from_str s =
     (case split_on (CHR '':'') s of
        [a, b] \<Rightarrow>
          and_then (map_err (InvalidExternalPort a) (u16_from_str a)) (\<lambda>external.
            and_then (map_err (InvalidInternalPort b) (u16_from_str b)) (\<lambda>internal.
              Inr \<lparr>external_port = external, internal_port = internal\<rparr>))
      | _ \<Rightarrow> Inl (InvalidSpecification s))"

lemma split_on_pair:
  "split_on c s = [a, b] \<longleftrightarrow> s = a @ c # b \<and> c \<notin> set a \<and> c \<notin> set b"
proof
  assume "split_on c s = [a, b]"
  then show "s = a @ c # b \<and> c \<notin> set a \<and> c \<notin> set b"
  proof (induction s arbitrary: a)
    case (Cons x s)
    then show ?case by (auto split: if_splits list.splits simp: split_on_single_iff)
  qed simp
qed (simp add: split_on_append split_on_single)

section \<open>Properties\<close>

text \<open>
  A specification is accepted exactly when it is two port numbers separated by a single colon;
  the first is the external port and the second the internal one.
\<close>

theorem exposed_port_exact:
  "ExposedPort_from_str s = Inr p \<longleftrightarrow>
     (\<exists>a b. s = a @ '':'' @ b \<and> CHR '':'' \<notin> set a \<and> CHR '':'' \<notin> set b \<and>
        u16_from_str a = Inr (external_port p) \<and> u16_from_str b = Inr (internal_port p))"
proof -
  have "ExposedPort_from_str s = Inr p \<longleftrightarrow>
      (\<exists>a b. split_on (CHR '':'') s = [a, b] \<and>
        u16_from_str a = Inr (external_port p) \<and> u16_from_str b = Inr (internal_port p))"
    by (auto simp: ExposedPort_from_str_def result_iffs split: list.splits)
  then show ?thesis by (simp add: split_on_pair)
qed

end
