(* ===== verification/Network.thy ===== *)
theory Network
  imports Subnet_Finder Exposed_Port Host_Side
begin

text \<open>
  Creating the shared network of the VMs (\<open>lib/network.rs\<close>). The configuration object belongs to
  vmnet: the model records the calls made on it, and vmnet's answer to a call may depend on all
  calls before it.
\<close>

definition MAX_VMS :: nat where
  "MAX_VMS = 5"

definition SUBNET_PREFIX_LEN :: u8 where
  "SUBNET_PREFIX_LEN = 29"

datatype NetType = NetNat | NetHost

record Network =
  nw_subnet :: Ipv4Net
  nw_gateway_ip :: ipv4addr
  nw_vm_ips :: "ipv4addr list"

datatype vmnet_mode = ModeShared | ModeHost

datatype config_call =
    NewConfiguration vmnet_mode
  | SetIpv4Subnet ipv4addr ipv4addr
  | AddDhcpReservation mac ipv4addr
  | AddPortForwardingRule u16 ipv4addr u16
  | CreateNetwork

type_synonym config_answers = "config_call list \<Rightarrow> config_call \<Rightarrow> vmnet_error option"

datatype network_error = ConfigCallFailed config_call vmnet_error | NoGatewayAddress

text \<open>Calls are made in order up to the first that fails.\<close>

fun run_calls ::
  "config_answers \<Rightarrow> config_call list \<Rightarrow> config_call list \<Rightarrow> network_error option \<times> config_call list" where
  "run_calls answers made [] = (None, made)"
| "run_calls answers made (call # calls) =
     (case answers made call of
        Some e \<Rightarrow> (Some (ConfigCallFailed call e), made @ [call])
      | None \<Rightarrow> run_calls answers (made @ [call]) calls)"

definition network_setup ::
  "ipv4addr \<Rightarrow> ipv4addr \<Rightarrow> (mac \<times> ipv4addr) list \<Rightarrow> (ipv4addr \<times> ExposedPort) list \<Rightarrow> config_call list" where
  "network_setup gateway_ip subnet_mask reservations port_forwardings =
     SetIpv4Subnet gateway_ip subnet_mask #
     map (\<lambda>(vm_mac, vm_ip). AddDhcpReservation vm_mac vm_ip) reservations @
     map (\<lambda>(vm_ip, port). AddPortForwardingRule (external_port port) vm_ip (internal_port port)) port_forwardings @
     [CreateNetwork]"

definition Network_new ::
  "'z subnet_ops_scheme \<Rightarrow> config_answers \<Rightarrow> NetType \<Rightarrow> Ipv4Net \<Rightarrow> (mac \<times> ipv4addr) list \<Rightarrow>
   (ipv4addr \<times> ExposedPort) list \<Rightarrow> (network_error + Network) \<times> config_call list" where
  "Network_new I answers net_type subnet reservations port_forwardings =
     (case run_calls answers []
             [NewConfiguration (case net_type of NetNat \<Rightarrow> ModeShared | NetHost \<Rightarrow> ModeHost)] of
        (Some e, made) \<Rightarrow> (Inl e, made)
      | (None, made) \<Rightarrow>
          (case net_hosts I subnet of
             [] \<Rightarrow> (Inl NoGatewayAddress, made)
           | gateway_ip # _ \<Rightarrow>
               (case run_calls answers made
                       (network_setup gateway_ip (net_netmask I subnet) reservations port_forwardings) of
                  (Some e, made) \<Rightarrow> (Inl e, made)
                | (None, made) \<Rightarrow>
                    (Inr \<lparr>nw_subnet = subnet, nw_gateway_ip = gateway_ip, nw_vm_ips = map snd reservations\<rparr>, made))))"

section \<open>Lemmas\<close>

lemma run_calls_ok: "run_calls answers made calls = (None, made') \<Longrightarrow> made' = made @ calls"
  by (induction answers made calls rule: run_calls.induct) (auto split: option.splits)

lemma run_calls_failed:
  "run_calls answers made calls = (Some e, made') \<Longrightarrow>
   \<exists>done call rest err. calls = done @ call # rest \<and> made' = made @ done @ [call] \<and>
     answers (made @ done) call = Some err \<and> e = ConfigCallFailed call err"
proof (induction answers made calls rule: run_calls.induct)
  case (2 answers made call calls)
  show ?case
  proof (cases "answers made call")
    case None
    then obtain don c rest err where "calls = don @ c # rest" "made' = (made @ [call]) @ don @ [c]"
      "answers ((made @ [call]) @ don) c = Some err" "e = ConfigCallFailed c err"
      using 2 by auto
    then show ?thesis by (intro exI[of _ "call # don"]) auto
  next
    case (Some err)
    then show ?thesis using 2(2) by (intro exI[of _ "[]"]) auto
  qed
qed simp

lemma Network_new_ok:
  assumes "Network_new I answers net_type subnet reservations forwardings = (Inr network, calls)"
  shows "nw_subnet network = subnet" "\<exists>hosts. net_hosts I subnet = nw_gateway_ip network # hosts"
    "nw_vm_ips network = map snd reservations"
    "calls = NewConfiguration (case net_type of NetNat \<Rightarrow> ModeShared | NetHost \<Rightarrow> ModeHost) #
      network_setup (nw_gateway_ip network) (net_netmask I subnet) reservations forwardings"
  using assms
  by (auto simp: Network_new_def dest!: run_calls_ok split: prod.splits option.splits list.splits)

end
