(* ===== verification/Manager.thy ===== *)
theory Manager
  imports Proxy_Properties Network
begin

text \<open>
  The manager (\<open>lib/manager.rs\<close>): it prepares a batch of VMs, creates their network and proxies on a
  worker, drops privileges, starts forwarding, answers control calls and shuts everything down. A
  spawned task is an entry of \<open>proxy_tasks\<close> with what it is doing; the answers of the system to one
  initialization are the record \<open>init_world\<close>, those to the proxy of a VM the function \<open>envs\<close>. The
  flag \<open>privileged\<close> is the credential state of the process, which \<open>PrivDrop\<close> clears.
\<close>

section \<open>Requests, replies and errors\<close>

type_synonym uuid = "128 word"

record 'n VmConfig =
  vm_fd :: int
  cfg_mac_address :: mac
  cfg_name :: "'n option"
  cfg_allow :: "Rule list"
  cfg_block :: "Rule list"
  exposed_ports :: "ExposedPort list"

type_synonym InitializedVm = "uuid \<times> mac"

datatype 'n Request =
    Initialize NetType "'n VmConfig list"
  | GetPolicy "uuid option"
  | SetPolicy "uuid option" "Rule list" "Rule list"

datatype Reply = Initialized "InitializedVm list" | PolicyReply Policy

datatype task_error = ProxyStopped proxy_error | CleanupFailed host_error | TaskPanicked

datatype 'n manager_error =
    AlreadyInitialized
  | BatchSizeInvalid
  | MacReserved mac
  | MacInUse mac
  | SubnetFailed subnet_error
  | VmPrepareFailed nat vm_error
  | NoAvailableAddress
  | DnsZoneFailed "'n dns_error"
  | NetworkFailed network_error
  | ProxyInitFailed nat uuid host_error
  | TaskStoppedDuringInit
  | PrivDropFailed
  | VmIdRequired
  | UnknownVm uuid
  | CommandNotAccepted
  | CommandNotAcknowledged
  | TaskFailed uuid task_error

datatype 'n InitializationError =
    InvalidParams "'n manager_error"
  | Rejected "'n manager_error"
  | ActivationFailed "'n manager_error"

datatype 'n CallError = CallInvalidParams "'n manager_error" | CallFailed "'n manager_error"

section \<open>State\<close>

text \<open>
  A VM task waits for its proxy, then for the start signal, then forwards packets until its loop
  ends; it leaves a result to be joined.
\<close>

datatype ('m, 'n, 'c) task =
    AwaitingProxy
  | AwaitingStart "('m, 'n, 'c) Proxy"
  | Forwarding "('m, 'n, 'c) Proxy"
  | Finished "task_error + unit"

text \<open>What the initialization worker owns.\<close>

record ('n, 'c) plan =
  plan_net_type :: NetType
  plan_subnet :: Ipv4Net
  plan_vms :: "(VM \<times> 'n VmConfig \<times> ipv4addr \<times> uuid) list"
  plan_dns :: "('n, 'c) DnsServer option"

record ('m, 'n, 'c) Manager =
  control_running :: bool
  calls_open :: bool
  proxy_handles :: "uuid list"
  proxy_tasks :: "(uuid, ('m, 'n, 'c) task) hashmap"
  initialization :: "('n, 'c) plan option"
  user :: string
  group :: string
  initialized :: bool
  default_vm_id :: "uuid option"
  privileged :: bool
  config_calls :: "config_call list"

definition Manager_new :: "string \<Rightarrow> string \<Rightarrow> bool \<Rightarrow> ('m, 'n, 'c) Manager" where
  "Manager_new user_name group_name control =
     \<lparr>control_running = control, calls_open = control, proxy_handles = [], proxy_tasks = [],
      initialization = None, user = user_name, group = group_name, initialized = False, default_vm_id = None,
      privileged = True, config_calls = []\<rparr>"

record ('n, 'z, 'c, 'rq, 'rs) init_world =
  w_subnet :: subnet_ops
  w_rng :: rng
  w_interfaces :: "if_addr list list option"
  w_ids :: "nat \<Rightarrow> uuid"
  w_dns :: "('n, 'z, 'c, 'rq, 'rs) dns_ops"
  w_config :: config_answers
  w_now :: "uuid \<Rightarrow> Instant"
  w_privdrop :: "string \<Rightarrow> string \<Rightarrow> bool"

section \<open>Initialization\<close>

fun validate_macs :: "mac list \<Rightarrow> 'n VmConfig list \<Rightarrow> 'n manager_error + unit" where
  "validate_macs seen [] = Inr ()"
| "validate_macs seen (vm # vms) =
     (if cfg_mac_address vm = DHCP_SERVER_MAC then Inl (MacReserved (cfg_mac_address vm))
      else if cfg_mac_address vm \<in> set seen then Inl (MacInUse (cfg_mac_address vm))
      else validate_macs (cfg_mac_address vm # seen) vms)"

text \<open>
  Taking over the sockets and assigning addresses and identifiers; when one VM fails, the sockets
  taken over so far are closed.
\<close>

fun prepare_vms ::
  "(uuid \<Rightarrow> ('p, 'm, 'n, 'msg, 'z, 'c, 'rq, 'rs) env) \<Rightarrow> ('n, 'z, 'c, 'rq, 'rs) init_world \<Rightarrow> nat \<Rightarrow> ipv4addr list \<Rightarrow>
   'n VmConfig list \<Rightarrow> ('n manager_error + (VM \<times> 'n VmConfig \<times> ipv4addr \<times> uuid) list) \<times> int list" where
  "prepare_vms envs W index hosts [] = (Inr [], [])"
| "prepare_vms envs W index hosts (config # vms) =
     (case VM_new (env_os (envs (w_ids W index))) (vm_fd config) of
        (Inl e, closed) \<Rightarrow> (Inl (VmPrepareFailed index e), closed)
      | (Inr vm, closed) \<Rightarrow>
          (case hosts of
             [] \<Rightarrow> (Inl NoAvailableAddress, closed @ [sock vm])
           | vm_ip # hosts \<Rightarrow>
               (case prepare_vms envs W (Suc index) hosts vms of
                  (Inl e, closed') \<Rightarrow> (Inl e, closed @ closed' @ [sock vm])
                | (Inr configured, closed') \<Rightarrow>
                    (Inr ((vm, config, vm_ip, w_ids W index) # configured), closed @ closed'))))"

definition dns_records ::
  "(VM \<times> 'n VmConfig \<times> ipv4addr \<times> uuid) list \<Rightarrow> ('n \<times> ipv4addr) list" where
  "dns_records configured =
     List.map_filter (\<lambda>(_, config, vm_ip, _). map_option (\<lambda>name. (name, vm_ip)) (cfg_name config)) configured"

definition start_dns ::
  "('n, 'z, 'c, 'rq, 'rs) dns_ops \<Rightarrow> ('n \<times> ipv4addr) list \<Rightarrow> 'n dns_error + ('n, 'c) DnsServer option" where
  "start_dns N records =
     (if records = [] then Inr None else and_then (DnsServer_new N records) (\<lambda>server. Inr (Some server)))"

text \<open>Everything before the worker starts: either an error with the closed sockets, or a plan.\<close>

definition initialize_begin ::
  "(uuid \<Rightarrow> ('p, 'm, 'n, 'msg, 'z, 'c, 'rq, 'rs) env) \<Rightarrow> ('n, 'z, 'c, 'rq, 'rs) init_world \<Rightarrow> bool \<Rightarrow> NetType \<Rightarrow>
   'n VmConfig list \<Rightarrow> ('n InitializationError + ('n, 'c) plan) \<times> int list" where
  "initialize_begin envs W already vm_net_type vms =
     (if already then (Inl (Rejected AlreadyInitialized), [])
      else if vms = [] \<or> length vms > MAX_VMS then (Inl (Rejected BatchSizeInvalid), [])
      else (case validate_macs [] vms of
              Inl e \<Rightarrow> (Inl (Rejected e), [])
            | Inr _ \<Rightarrow>
                (case find_available_subnet (w_subnet W) (w_rng W) (w_interfaces W) SUBNET_PREFIX_LEN of
                   Inl e \<Rightarrow> (Inl (Rejected (SubnetFailed e)), [])
                 | Inr (_, _, subnet) \<Rightarrow>
                     (case prepare_vms envs W 0 (drop 1 (net_hosts (w_subnet W) subnet)) vms of
                        (Inl e, closed) \<Rightarrow> (Inl (Rejected e), closed)
                      | (Inr configured, closed) \<Rightarrow>
                          (case start_dns (w_dns W) (dns_records configured) of
                             Inl e \<Rightarrow> (Inl (InvalidParams (DnsZoneFailed e)),
                                       closed @ map (\<lambda>(vm, _). sock vm) configured)
                           | Inr dns \<Rightarrow>
                               (Inr \<lparr>plan_net_type = vm_net_type, plan_subnet = subnet, plan_vms = configured,
                                     plan_dns = dns\<rparr>, closed))))))"

definition plan_ids :: "('n, 'c) plan \<Rightarrow> uuid list" where
  "plan_ids plan = map (\<lambda>(_, _, _, vm_id). vm_id) (plan_vms plan)"

definition plan_initialized :: "('n, 'c) plan \<Rightarrow> InitializedVm list" where
  "plan_initialized plan = map (\<lambda>(_, config, _, vm_id). (vm_id, cfg_mac_address config)) (plan_vms plan)"

text \<open>Registering the VM tasks and their handles, and spawning the worker.\<close>

definition register_tasks ::
  "('m, 'n, 'c) Manager \<Rightarrow> ('n, 'c) plan \<Rightarrow> ('m, 'n, 'c) Manager" where
  "register_tasks mgr plan =
     fold (\<lambda>vm_id mgr. mgr\<lparr>proxy_tasks := hm_insert vm_id AwaitingProxy (proxy_tasks mgr),
                           proxy_handles := List.insert vm_id (proxy_handles mgr)\<rparr>)
       (plan_ids plan) (mgr\<lparr>initialization := Some plan\<rparr>)"

fun create_proxies ::
  "(uuid \<Rightarrow> ('p, 'm, 'n, 'msg, 'z, 'c, 'rq, 'rs) env) \<Rightarrow> ('n, 'z, 'c, 'rq, 'rs) init_world \<Rightarrow> Network \<Rightarrow>
   ('n, 'c) DnsServer option \<Rightarrow> nat \<Rightarrow> (VM \<times> 'n VmConfig \<times> ipv4addr \<times> uuid) list \<Rightarrow>
   'n manager_error + (uuid \<times> ('m, 'n, 'c) Proxy) list" where
  "create_proxies envs W network dns index [] = Inr []"
| "create_proxies envs W network dns index ((vm, config, vm_ip, vm_id) # configured) =
     and_then (map_err (ProxyInitFailed index vm_id)
       (Proxy_new (envs vm_id) vm (cfg_mac_address config) vm_ip (nw_gateway_ip network)
          (net_netmask (w_subnet W) (nw_subnet network)) (nw_vm_ips network)
          (cfg_allow config) (cfg_block config) dns (w_now W vm_id))) (\<lambda>proxy.
     and_then (create_proxies envs W network dns (Suc index) configured) (\<lambda>proxies.
       Inr ((vm_id, proxy) # proxies)))"

text \<open>Handing each proxy to its task, which must still wait for it.\<close>

fun hand_over ::
  "(uuid \<times> ('m, 'n, 'c) Proxy) list \<Rightarrow> (uuid, ('m, 'n, 'c) task) hashmap \<Rightarrow>
   ('n manager_error + unit) \<times> (uuid, ('m, 'n, 'c) task) hashmap" where
  "hand_over [] tasks = (Inr (), tasks)"
| "hand_over ((vm_id, proxy) # proxies) tasks =
     (case hm_get tasks vm_id of
        Some AwaitingProxy \<Rightarrow> hand_over proxies (hm_insert vm_id (AwaitingStart proxy) tasks)
      | _ \<Rightarrow> (Inl TaskStoppedDuringInit, tasks))"

text \<open>The worker: the network, then every proxy, and only then any transfer.\<close>

definition initialization_worker ::
  "(uuid \<Rightarrow> ('p, 'm, 'n, 'msg, 'z, 'c, 'rq, 'rs) env) \<Rightarrow> ('n, 'z, 'c, 'rq, 'rs) init_world \<Rightarrow> ('n, 'c) plan \<Rightarrow>
   ('m, 'n, 'c) Manager \<Rightarrow> ('n manager_error + unit) \<times> ('m, 'n, 'c) Manager" where
  "initialization_worker envs W plan mgr =
     (let reservations = map (\<lambda>(_, config, vm_ip, _). (cfg_mac_address config, vm_ip)) (plan_vms plan);
          port_forwardings = concat (map (\<lambda>(_, config, vm_ip, _). map (\<lambda>port. (vm_ip, port)) (exposed_ports config))
            (plan_vms plan));
          (network, calls) = Network_new (w_subnet W) (w_config W) (plan_net_type plan) (plan_subnet plan)
            reservations port_forwardings;
          mgr = mgr\<lparr>config_calls := calls\<rparr>
      in (case network of
            Inl e \<Rightarrow> (Inl (NetworkFailed e), mgr)
          | Inr network \<Rightarrow>
              (case create_proxies envs W network (plan_dns plan) 0 (plan_vms plan) of
                 Inl e \<Rightarrow> (Inl e, mgr)
               | Inr proxies \<Rightarrow>
                   (let (result, tasks) = hand_over proxies (proxy_tasks mgr)
                    in (result, mgr\<lparr>proxy_tasks := tasks\<rparr>)))))"

definition finish_initialization ::
  "(uuid \<Rightarrow> ('p, 'm, 'n, 'msg, 'z, 'c, 'rq, 'rs) env) \<Rightarrow> ('n, 'z, 'c, 'rq, 'rs) init_world \<Rightarrow>
   ('m, 'n, 'c) Manager \<Rightarrow> ('n manager_error + unit) \<times> ('m, 'n, 'c) Manager" where
  "finish_initialization envs W mgr =
     (case initialization mgr of
        None \<Rightarrow> (Inr (), mgr)
      | Some plan \<Rightarrow>
          (let (result, mgr) = initialization_worker envs W plan mgr in (result, mgr\<lparr>initialization := None\<rparr>)))"

section \<open>VM tasks\<close>

text \<open>The end of a task that has a proxy: its interface is stopped, then the proxy is dropped.\<close>

definition finish_proxy ::
  "'v vmnet_scheme \<Rightarrow> (task_error + unit) \<Rightarrow> ('m, 'n, 'c) Proxy \<Rightarrow> (task_error + unit) \<times> ('m, 'n, 'c) Proxy" where
  "finish_proxy vn result proxy =
     (let (cleanup_result, host, _) = Host_finalize vn (px_host proxy)
      in (and_then result (\<lambda>_. map_err CleanupFailed cleanup_result), proxy\<lparr>px_host := Host_drop vn host\<rparr>))"

definition exit_result :: "loop_exit \<Rightarrow> task_error + unit" where
  "exit_result exit = (case exit of ExitOk \<Rightarrow> Inr () | ExitErr e \<Rightarrow> Inl (ProxyStopped e))"

text \<open>What dropping the senders of the proxy and of the start signal does to a task.\<close>

definition release_task ::
  "(uuid \<Rightarrow> ('p, 'm, 'n, 'msg, 'z, 'c, 'rq, 'rs) env) \<Rightarrow> uuid \<Rightarrow> ('m, 'n, 'c) task \<Rightarrow> ('m, 'n, 'c) task" where
  "release_task envs vm_id t =
     (case t of
        AwaitingProxy \<Rightarrow> Finished (Inr ())
      | AwaitingStart proxy \<Rightarrow> Finished (fst (finish_proxy (env_vmnet (envs vm_id)) (Inr ()) proxy))
      | _ \<Rightarrow> t)"

definition release_tasks ::
  "(uuid \<Rightarrow> ('p, 'm, 'n, 'msg, 'z, 'c, 'rq, 'rs) env) \<Rightarrow> ('m, 'n, 'c) Manager \<Rightarrow> ('m, 'n, 'c) Manager" where
  "release_tasks envs mgr =
     mgr\<lparr>proxy_tasks := map (\<lambda>(vm_id, t). (vm_id, release_task envs vm_id t)) (proxy_tasks mgr)\<rparr>"

definition start_task :: "('m, 'n, 'c) task \<Rightarrow> ('m, 'n, 'c) task" where
  "start_task t = (case t of AwaitingStart proxy \<Rightarrow> Forwarding proxy | _ \<Rightarrow> t)"

definition start_tasks :: "('m, 'n, 'c) Manager \<Rightarrow> ('m, 'n, 'c) Manager" where
  "start_tasks mgr = mgr\<lparr>proxy_tasks := map (\<lambda>(vm_id, t). (vm_id, start_task t)) (proxy_tasks mgr)\<rparr>"

text \<open>
  The whole of \<open>initialize\<close>, with the sockets it closed before registering the tasks; from then on
  the sockets belong to the worker and to the tasks.
\<close>

definition initialize ::
  "(uuid \<Rightarrow> ('p, 'm, 'n, 'msg, 'z, 'c, 'rq, 'rs) env) \<Rightarrow> ('n, 'z, 'c, 'rq, 'rs) init_world \<Rightarrow>
   ('m, 'n, 'c) Manager \<Rightarrow> NetType \<Rightarrow> 'n VmConfig list \<Rightarrow>
   ('n InitializationError + InitializedVm list) \<times> ('m, 'n, 'c) Manager \<times> int list" where
  "initialize envs W mgr vm_net_type vms =
     (case initialize_begin envs W (initialized mgr) vm_net_type vms of
        (Inl e, closed) \<Rightarrow> (Inl e, mgr, closed)
      | (Inr plan, closed) \<Rightarrow>
          (case finish_initialization envs W (register_tasks mgr plan) of
             (Inl e, mgr) \<Rightarrow> (Inl (ActivationFailed e), release_tasks envs mgr, closed)
           | (Inr _, mgr) \<Rightarrow>
               if \<not> w_privdrop W (user mgr) (group mgr)
               then (Inl (ActivationFailed PrivDropFailed), release_tasks envs mgr, closed)
               else (Inr (plan_initialized plan),
                     start_tasks (mgr\<lparr>privileged := False, initialized := True,
                       default_vm_id := (case plan_initialized plan of [(vm_id, _)] \<Rightarrow> Some vm_id | _ \<Rightarrow> None)\<rparr>),
                     closed)))"

section \<open>Control calls\<close>

definition proxy_handle :: "('m, 'n, 'c) Manager \<Rightarrow> uuid option \<Rightarrow> 'n manager_error + uuid" where
  "proxy_handle mgr vm_id =
     and_then (ok_or VmIdRequired (case vm_id of Some i \<Rightarrow> Some i | None \<Rightarrow> default_vm_id mgr)) (\<lambda>vm_id.
       if vm_id \<in> set (proxy_handles mgr) then Inr vm_id else Inl (UnknownVm vm_id))"

text \<open>
  Sending a command to a task and waiting for its reply. A task that has ended does not accept it;
  one that never starts drops it unanswered.
\<close>

definition proxy_request ::
  "(uuid \<Rightarrow> ('p, 'm, 'n, 'msg, 'z, 'c, 'rq, 'rs) env) \<Rightarrow> ('m, 'n, 'c) Manager \<Rightarrow> uuid \<Rightarrow> Command \<Rightarrow> Instant \<Rightarrow>
   ('n manager_error + Policy) \<times> ('m, 'n, 'c) Manager" where
  "proxy_request envs mgr vm_id command now =
     (case hm_get (proxy_tasks mgr) vm_id of
        Some (Forwarding proxy) \<Rightarrow>
          (case on_command (envs vm_id) proxy (Some command) now of
             (_, proxy, policy) \<Rightarrow>
               (ok_or CommandNotAcknowledged policy,
                mgr\<lparr>proxy_tasks := hm_insert vm_id (Forwarding proxy) (proxy_tasks mgr)\<rparr>))
      | Some (Finished _) \<Rightarrow> (Inl CommandNotAccepted, mgr)
      | None \<Rightarrow> (Inl CommandNotAccepted, mgr)
      | _ \<Rightarrow> (Inl CommandNotAcknowledged, mgr))"

definition finish_control :: "('m, 'n, 'c) Manager \<Rightarrow> ('m, 'n, 'c) Manager" where
  "finish_control mgr = mgr\<lparr>calls_open := False, control_running := False\<rparr>"

text \<open>A dispatched call: the error that ends the run, the manager, the reply and the closed sockets.\<close>

definition dispatch ::
  "(uuid \<Rightarrow> ('p, 'm, 'n, 'msg, 'z, 'c, 'rq, 'rs) env) \<Rightarrow> ('n, 'z, 'c, 'rq, 'rs) init_world \<Rightarrow> Instant \<Rightarrow>
   ('m, 'n, 'c) Manager \<Rightarrow> 'n Request \<Rightarrow>
   ('n manager_error + unit) \<times> ('m, 'n, 'c) Manager \<times> ('n CallError + Reply) \<times> int list" where
  "dispatch envs W now mgr request =
     (case request of
        Initialize vm_net_type vms \<Rightarrow>
          (case initialize envs W mgr vm_net_type vms of
             (Inr vms, mgr, closed) \<Rightarrow> (Inr (), mgr, Inr (Initialized vms), closed)
           | (Inl (InvalidParams e), mgr, closed) \<Rightarrow> (Inr (), mgr, Inl (CallInvalidParams e), closed)
           | (Inl (Rejected e), mgr, closed) \<Rightarrow> (Inr (), mgr, Inl (CallFailed e), closed)
           | (Inl (ActivationFailed e), mgr, closed) \<Rightarrow> (Inl e, finish_control mgr, Inl (CallFailed e), closed))
      | GetPolicy vm_id \<Rightarrow>
          (case proxy_handle mgr vm_id of
             Inr vm_id \<Rightarrow>
               (let (result, mgr) = proxy_request envs mgr vm_id PolicyGet now
                in (Inr (), mgr, map_err CallFailed (and_then result (\<lambda>p. Inr (PolicyReply p))), []))
           | Inl e \<Rightarrow> (Inr (), mgr, Inl (CallInvalidParams e), []))
      | SetPolicy vm_id allow block \<Rightarrow>
          (case proxy_handle mgr vm_id of
             Inr vm_id \<Rightarrow>
               (let (result, mgr) = proxy_request envs mgr vm_id (PolicySet allow block) now
                in (Inr (), mgr, map_err CallFailed (and_then result (\<lambda>p. Inr (PolicyReply p))), []))
           | Inl e \<Rightarrow> (Inr (), mgr, Inl (CallInvalidParams e), [])))"

section \<open>The main loop\<close>

definition reap_task ::
  "('m, 'n, 'c) Manager \<Rightarrow> uuid \<Rightarrow> (task_error + unit) \<Rightarrow> ('n manager_error + unit) \<times> ('m, 'n, 'c) Manager" where
  "reap_task mgr vm_id result =
     (map_err (TaskFailed vm_id) result,
      mgr\<lparr>proxy_handles := removeAll vm_id (proxy_handles mgr), proxy_tasks := hm_remove vm_id (proxy_tasks mgr)\<rparr>)"

text \<open>A proxy task handling one event of its loop; its commands come through \<open>proxy_request\<close>.\<close>

definition task_event ::
  "('p, 'm, 'n, 'msg, 'z, 'c, 'rq, 'rs) env \<Rightarrow> ('m, 'n, 'c) Proxy \<Rightarrow> loop_event \<Rightarrow> ('m, 'n, 'c) task" where
  "task_event env proxy event =
     (case select_branch env proxy event of
        (None, proxy, _) \<Rightarrow> Forwarding proxy
      | (Some exit, proxy, _) \<Rightarrow> Finished (fst (finish_proxy (env_vmnet env) (exit_result exit) proxy)))"

datatype ('m, 'n, 'c) run_state =
    Running "('m, 'n, 'c) Manager"
  | Exited "'n manager_error + unit" "('m, 'n, 'c) Manager"

text \<open>
  The branches of the loop of \<open>run\<close>, interleaved with the steps of the VM tasks. Joining a failed
  task ends the run at once; joining the last one ends it after finishing control, as does a state
  in which no branch can make progress. The system may answer each call in any way of \<open>worlds\<close>.
\<close>

inductive manager_step ::
  "(uuid \<Rightarrow> ('p, 'm, 'n, 'msg, 'z, 'c, 'rq, 'rs) env) \<Rightarrow> (('n, 'z, 'c, 'rq, 'rs) init_world \<Rightarrow> bool) \<Rightarrow>
   ('m, 'n, 'c) run_state \<Rightarrow> ('m, 'n, 'c) run_state \<Rightarrow> bool"
  for envs worlds where
  task: "hm_get (proxy_tasks mgr) vm_id = Some (Forwarding proxy) \<Longrightarrow> \<not> is_command event \<Longrightarrow>
    manager_step envs worlds (Running mgr)
      (Running (mgr\<lparr>proxy_tasks := hm_insert vm_id (task_event (envs vm_id) proxy event) (proxy_tasks mgr)\<rparr>))"
| panic: "hm_get (proxy_tasks mgr) vm_id = Some (Forwarding proxy) \<Longrightarrow>
    manager_step envs worlds (Running mgr)
      (Running (mgr\<lparr>proxy_tasks := hm_insert vm_id (Finished (Inl TaskPanicked)) (proxy_tasks mgr)\<rparr>))"
| join: "hm_get (proxy_tasks mgr) vm_id = Some (Finished result) \<Longrightarrow>
    reap_task mgr vm_id result = (Inr (), mgr') \<Longrightarrow> proxy_tasks mgr' \<noteq> [] \<Longrightarrow>
    manager_step envs worlds (Running mgr) (Running mgr')"
| join_last: "hm_get (proxy_tasks mgr) vm_id = Some (Finished result) \<Longrightarrow>
    reap_task mgr vm_id result = (Inr (), mgr') \<Longrightarrow> proxy_tasks mgr' = [] \<Longrightarrow>
    manager_step envs worlds (Running mgr) (Exited (Inr ()) (finish_control mgr'))"
| join_failed: "hm_get (proxy_tasks mgr) vm_id = Some (Finished result) \<Longrightarrow>
    reap_task mgr vm_id result = (Inl e, mgr') \<Longrightarrow>
    manager_step envs worlds (Running mgr) (Exited (Inl e) mgr')"
| control: "control_running mgr \<Longrightarrow> manager_step envs worlds (Running mgr) (Running (finish_control mgr))"
| call: "calls_open mgr \<Longrightarrow> worlds W \<Longrightarrow> dispatch envs W now mgr request = (Inr (), mgr', reply, closed) \<Longrightarrow>
    manager_step envs worlds (Running mgr) (Running mgr')"
| call_fatal: "calls_open mgr \<Longrightarrow> worlds W \<Longrightarrow> dispatch envs W now mgr request = (Inl e, mgr', reply, closed) \<Longrightarrow>
    manager_step envs worlds (Running mgr) (Exited (Inl e) mgr')"
| idle: "proxy_tasks mgr = [] \<Longrightarrow> \<not> control_running mgr \<Longrightarrow> \<not> calls_open mgr \<Longrightarrow>
    manager_step envs worlds (Running mgr) (Exited (Inr ()) (finish_control mgr))"

section \<open>Shutdown\<close>

text \<open>
  What a task does once its command channel is closed. A forwarding task handles some more events
  and then sees the closed channel; the result is that of the task with the proxy it dropped.
\<close>

definition drain_task ::
  "('p, 'm, 'n, 'msg, 'z, 'c, 'rq, 'rs) env \<Rightarrow> loop_event list \<Rightarrow> Instant \<Rightarrow> ('m, 'n, 'c) task \<Rightarrow>
   (task_error + unit) \<times> ('m, 'n, 'c) Proxy option" where
  "drain_task env events now t =
     (case t of
        AwaitingProxy \<Rightarrow> (Inr (), None)
      | AwaitingStart proxy \<Rightarrow>
          (let (result, proxy) = finish_proxy (env_vmnet env) (Inr ()) proxy in (result, Some proxy))
      | Forwarding proxy \<Rightarrow>
          (case run_proxy env proxy (filter (Not \<circ> is_command) events @ [CommandReceived None now]) of
             (exit, proxy, _) \<Rightarrow>
               (let (result, proxy) = finish_proxy (env_vmnet env)
                      (case exit of Some e \<Rightarrow> exit_result e | None \<Rightarrow> Inr ()) proxy
                in (result, Some proxy)))
      | Finished result \<Rightarrow> (result, None))"

fun join_all ::
  "(uuid \<Rightarrow> ('p, 'm, 'n, 'msg, 'z, 'c, 'rq, 'rs) env) \<Rightarrow> (uuid \<Rightarrow> loop_event list) \<Rightarrow> (uuid \<Rightarrow> Instant) \<Rightarrow>
   ('n manager_error + unit) \<Rightarrow> (uuid \<times> ('m, 'n, 'c) task) list \<Rightarrow> ('m, 'n, 'c) Manager \<Rightarrow>
   ('n manager_error + unit) \<times> ('m, 'n, 'c) Manager \<times> (uuid \<times> ('m, 'n, 'c) Proxy) list" where
  "join_all envs events now result [] mgr = (result, mgr, [])"
| "join_all envs events now result ((vm_id, t) # tasks) mgr =
     (let (outcome, dropped) = drain_task (envs vm_id) (events vm_id) (now vm_id) t;
          (reaped, mgr) = reap_task mgr vm_id outcome;
          (result, mgr, proxies) =
            join_all envs events now (and_then result (\<lambda>_. reaped)) tasks mgr
      in (result, mgr, (case dropped of None \<Rightarrow> [] | Some p \<Rightarrow> [(vm_id, p)]) @ proxies))"

definition shutdown ::
  "(uuid \<Rightarrow> ('p, 'm, 'n, 'msg, 'z, 'c, 'rq, 'rs) env) \<Rightarrow> ('n, 'z, 'c, 'rq, 'rs) init_world \<Rightarrow>
   (uuid \<Rightarrow> loop_event list) \<Rightarrow> (uuid \<Rightarrow> Instant) \<Rightarrow> ('m, 'n, 'c) Manager \<Rightarrow>
   ('n manager_error + unit) \<times> ('m, 'n, 'c) Manager \<times> (uuid \<times> ('m, 'n, 'c) Proxy) list" where
  "shutdown envs W events now mgr =
     (let mgr = (finish_control mgr)\<lparr>proxy_handles := []\<rparr>;
          (result, mgr) = finish_initialization envs W mgr
      in join_all envs events now result (proxy_tasks mgr) mgr)"

end
