(* ===== verification/Manager_Properties.thy ===== *)
theory Manager_Properties
  imports Manager
begin

text \<open>
  Correctness of the manager: what a batch initialization guarantees when it succeeds and when it
  does not, the invariant of its loop, the isolation of the VMs from each other, and shutdown.
\<close>

section \<open>Lemmas: preparing a batch\<close>

text \<open>The duplicate that taking over a descriptor makes, when it makes one.\<close>

definition duplicated :: "'z os_scheme \<Rightarrow> int \<Rightarrow> int list" where
  "duplicated os fd = (if 0 \<le> fd then (case os_dup os fd of Inl _ \<Rightarrow> [] | Inr d \<Rightarrow> [d]) else [])"

lemma VM_new_sockets:
  "VM_new os fd = (Inr vm, closed) \<Longrightarrow> closed = [] \<and> duplicated os fd = [sock vm]"
  "VM_new os fd = (Inl e, closed) \<Longrightarrow> closed = duplicated os fd"
  by (auto simp: VM_new_def duplicate_vm_fd_def duplicated_def split: prod.splits sum.splits if_splits)

definition batch_duplicates ::
  "(uuid \<Rightarrow> ('p, 'm, 'n, 'msg, 'z, 'c, 'rq, 'rs) env) \<Rightarrow> ('n, 'z, 'c, 'rq, 'rs) init_world \<Rightarrow> nat \<Rightarrow>
   'n VmConfig list \<Rightarrow> int list" where
  "batch_duplicates envs W index vms =
     concat (map (\<lambda>(i, config). duplicated (env_os (envs (w_ids W i))) (vm_fd config)) (enumerate index vms))"

lemma batch_duplicates_simps [simp]:
  "batch_duplicates envs W index [] = []"
  "batch_duplicates envs W index (config # vms) =
     duplicated (env_os (envs (w_ids W index))) (vm_fd config) @ batch_duplicates envs W (Suc index) vms"
  by (simp_all add: batch_duplicates_def)

lemma prepare_vms_ok:
  "prepare_vms envs W index hosts vms = (Inr configured, closed) \<Longrightarrow>
   closed = [] \<and> length vms \<le> length hosts \<and> map (\<lambda>(_, config, _, _). config) configured = vms \<and>
   map (\<lambda>(_, _, vm_ip, _). vm_ip) configured = take (length vms) hosts \<and>
   map (\<lambda>(_, _, _, vm_id). vm_id) configured = map (w_ids W) [index..<index + length vms] \<and>
   map (\<lambda>(vm, _). sock vm) configured = batch_duplicates envs W index vms"
proof (induction envs W index hosts vms arbitrary: configured closed rule: prepare_vms.induct)
  case (2 envs W index hosts config vms)
  from 2(2) obtain vm closed1 where vm: "VM_new (env_os (envs (w_ids W index))) (vm_fd config) = (Inr vm, closed1)"
    by (auto split: prod.splits sum.splits)
  with 2(2) obtain vm_ip hosts' where hosts: "hosts = vm_ip # hosts'" by (auto split: list.splits)
  with vm 2(2) obtain rest closed2 where rest: "prepare_vms envs W (Suc index) hosts' vms = (Inr rest, closed2)"
    by (auto split: prod.splits sum.splits)
  have "[index..<index + length (config # vms)] = index # [Suc index..<Suc index + length vms]"
    by (simp add: upt_conv_Cons del: upt_Suc)
  with 2(1)[OF vm[symmetric] _ hosts rest] vm hosts rest 2(2) VM_new_sockets(1)[OF vm]
  show ?case by (auto simp del: upt_Suc)
qed simp

definition rejected_after :: "'n InitializationError \<Rightarrow> 'n VmConfig list \<Rightarrow> nat" where
  "rejected_after e vms =
     (case e of
        InvalidParams _ \<Rightarrow> length vms
      | Rejected (VmPrepareFailed index _) \<Rightarrow> Suc index
      | _ \<Rightarrow> 0)"

lemma prepare_vms_failed:
  "prepare_vms envs W index hosts vms = (Inl e, closed) \<Longrightarrow> length vms \<le> length hosts \<Longrightarrow>
   \<exists>i err. e = VmPrepareFailed (index + i) err \<and> i < length vms \<and>
     mset closed = mset (batch_duplicates envs W index (take (Suc i) vms))"
proof (induction envs W index hosts vms arbitrary: e closed rule: prepare_vms.induct)
  case (2 envs W index hosts config vms)
  obtain r closed1 where vm: "VM_new (env_os (envs (w_ids W index))) (vm_fd config) = (r, closed1)"
    by (cases "VM_new (env_os (envs (w_ids W index))) (vm_fd config)")
  show ?case
  proof (cases r)
    case (Inl err)
    then show ?thesis
      using 2(2) vm VM_new_sockets(2) by (intro exI[of _ 0] exI[of _ err]) fastforce
  next
    case (Inr v)
    obtain vm_ip hosts' where hosts: "hosts = vm_ip # hosts'" using 2(3) by (cases hosts) auto
    obtain closed2 where rest: "prepare_vms envs W (Suc index) hosts' vms = (Inl e, closed2)"
      and closed: "closed = closed1 @ closed2 @ [sock v]"
      using 2(2) vm Inr hosts by (auto split: prod.splits sum.splits)
    obtain i err where "e = VmPrepareFailed (Suc index + i) err" "i < length vms"
      "mset closed2 = mset (batch_duplicates envs W (Suc index) (take (Suc i) vms))"
      using 2(1)[OF vm[symmetric] Inr hosts rest] 2(3) hosts by auto
    then show ?thesis
      using closed VM_new_sockets(1)[OF vm[unfolded Inr]]
      by (intro exI[of _ "Suc i"] exI[of _ err]) simp
  qed
qed simp

lemma validate_macs_ok:
  "validate_macs seen vms = Inr () \<longleftrightarrow>
   DHCP_SERVER_MAC \<notin> cfg_mac_address ` set vms \<and> distinct (map cfg_mac_address vms) \<and>
   set seen \<inter> cfg_mac_address ` set vms = {}"
  by (induction seen vms rule: validate_macs.induct) auto

lemma validate_macs_error: "validate_macs seen vms = Inl e \<Longrightarrow> e \<noteq> VmPrepareFailed i err"
  by (induction seen vms rule: validate_macs.induct) (auto split: if_splits)

text \<open>A prefix of 29 bits leaves five addresses after the gateway.\<close>

lemma subnet_addresses:
  assumes "subnet_api (w_subnet W)" "rng_api (w_rng W)"
    and "find_available_subnet (w_subnet W) (w_rng W) (w_interfaces W) SUBNET_PREFIX_LEN = Inr (h1, h2, subnet)"
  shows "length (net_hosts (w_subnet W) subnet) = 6" "distinct (net_hosts (w_subnet W) subnet)"
    "\<And>a. a \<in> set (net_hosts (w_subnet W) subnet) \<Longrightarrow> in_net subnet a" "net_prefix_len subnet = SUBNET_PREFIX_LEN"
proof -
  obtain interfaces where "w_interfaces W = Some interfaces"
    using assms(3) by (auto simp: find_available_subnet_def result_iffs)
  then show len: "net_prefix_len subnet = SUBNET_PREFIX_LEN"
    using found_subnet[OF assms(1,2), of SUBNET_PREFIX_LEN interfaces] assms(3)
    by (simp add: SUBNET_PREFIX_LEN_def)
  then have "net_prefix_len subnet \<le> 30" "host_bits subnet = 3" by (simp_all add: SUBNET_PREFIX_LEN_def host_bits_def)
  then show "length (net_hosts (w_subnet W) subnet) = 6" "distinct (net_hosts (w_subnet W) subnet)"
    "\<And>a. a \<in> set (net_hosts (w_subnet W) subnet) \<Longrightarrow> in_net subnet a"
    using subnet_api.hosts_usable[OF assms(1), of subnet] by simp_all
qed

section \<open>Lemmas: activating a batch\<close>

lemma register_fold:
  "fold (\<lambda>vm_id mgr. mgr\<lparr>proxy_tasks := hm_insert vm_id AwaitingProxy (proxy_tasks mgr),
       proxy_handles := List.insert vm_id (proxy_handles mgr)\<rparr>) ids mgr =
   mgr\<lparr>proxy_tasks := fold (\<lambda>vm_id. hm_insert vm_id AwaitingProxy) ids (proxy_tasks mgr),
       proxy_handles := fold List.insert ids (proxy_handles mgr)\<rparr>"
  by (induction ids arbitrary: mgr) simp_all

lemma register_tasks_eq:
  "register_tasks mgr plan =
   mgr\<lparr>initialization := Some plan,
       proxy_tasks := fold (\<lambda>vm_id. hm_insert vm_id AwaitingProxy) (plan_ids plan) (proxy_tasks mgr),
       proxy_handles := fold List.insert (plan_ids plan) (proxy_handles mgr)\<rparr>"
  by (simp add: register_tasks_def register_fold)

lemma awaiting_tasks:
  "hm_get (fold (\<lambda>vm_id. hm_insert vm_id AwaitingProxy) ids tasks) vm_id =
     (if vm_id \<in> set ids then Some AwaitingProxy else hm_get tasks vm_id)"
  "hm_wf tasks \<Longrightarrow> hm_wf (fold (\<lambda>vm_id. hm_insert vm_id AwaitingProxy) ids tasks)"
  by (induction ids arbitrary: tasks) auto

lemma set_fold_insert: "set (fold List.insert ids xs) = set ids \<union> set xs"
  by (induction ids arbitrary: xs) auto

lemma create_proxies_ok:
  "create_proxies envs W network dns index configured = Inr proxies \<Longrightarrow>
   list_all2 (\<lambda>(vm, config, vm_ip, vm_id) (vm_id', proxy). vm_id' = vm_id \<and>
     Proxy_new (envs vm_id) vm (cfg_mac_address config) vm_ip (nw_gateway_ip network)
       (net_netmask (w_subnet W) (nw_subnet network)) (nw_vm_ips network)
       (cfg_allow config) (cfg_block config) dns (w_now W vm_id) = Inr proxy) configured proxies"
  by (induction envs W network dns index configured arbitrary: proxies rule: create_proxies.induct)
    (auto simp: result_iffs)

lemma create_proxies_ids:
  "create_proxies envs W network dns index configured = Inr proxies \<Longrightarrow>
   map fst proxies = map (\<lambda>(_, _, _, vm_id). vm_id) configured"
  by (induction envs W network dns index configured arbitrary: proxies rule: create_proxies.induct)
    (auto simp: result_iffs)

lemma create_proxies_nth:
  assumes "create_proxies envs W network dns index configured = Inr proxies" "i < length configured"
    and "configured ! i = (vm, config, vm_ip, vm_id)" "distinct (map fst proxies)"
  shows "\<exists>proxy. map_of proxies vm_id = Some proxy \<and>
    Proxy_new (envs vm_id) vm (cfg_mac_address config) vm_ip (nw_gateway_ip network)
       (net_netmask (w_subnet W) (nw_subnet network)) (nw_vm_ips network)
       (cfg_allow config) (cfg_block config) dns (w_now W vm_id) = Inr proxy"
proof -
  note all = create_proxies_ok[OF assms(1)]
  obtain proxy where "proxies ! i = (vm_id, proxy)" and new: "Proxy_new (envs vm_id) vm (cfg_mac_address config) vm_ip
      (nw_gateway_ip network) (net_netmask (w_subnet W) (nw_subnet network)) (nw_vm_ips network)
      (cfg_allow config) (cfg_block config) dns (w_now W vm_id) = Inr proxy"
    using list_all2_nthD[OF all assms(2)] assms(3) by (cases "proxies ! i") auto
  moreover have "i < length proxies" using list_all2_lengthD[OF all] assms(2) by simp
  ultimately have "(vm_id, proxy) \<in> set proxies" by (metis nth_mem)
  then show ?thesis using assms(4) new by auto
qed

lemma hand_over_ok:
  "distinct (map fst proxies) \<Longrightarrow> hm_wf tasks \<Longrightarrow>
   (\<And>vm_id. vm_id \<in> fst ` set proxies \<Longrightarrow> hm_get tasks vm_id = Some AwaitingProxy) \<Longrightarrow>
   \<exists>tasks'. hand_over proxies tasks = (Inr (), tasks') \<and> hm_wf tasks' \<and>
     (\<forall>vm_id. hm_get tasks' vm_id =
        (case map_of proxies vm_id of Some p \<Rightarrow> Some (AwaitingStart p) | None \<Rightarrow> hm_get tasks vm_id))"
proof (induction proxies tasks rule: hand_over.induct)
  case (2 vm_id proxy proxies tasks)
  have await: "hm_get tasks vm_id = Some AwaitingProxy" using 2(4) by simp
  let ?t = "hm_insert vm_id (AwaitingStart proxy) tasks"
  have pre: "hm_get ?t i = Some AwaitingProxy" if "i \<in> fst ` set proxies" for i
    using that 2(2) 2(4)[of i] by auto
  obtain tasks' where t': "hand_over proxies ?t = (Inr (), tasks')" "hm_wf tasks'"
    "\<And>i. hm_get tasks' i = (case map_of proxies i of Some p \<Rightarrow> Some (AwaitingStart p) | None \<Rightarrow> hm_get ?t i)"
    using 2(1)[OF await refl _ _ pre] 2(2,3) by auto
  have "map_of proxies vm_id = None" using 2(2) by (simp add: map_of_eq_None_iff)
  then show ?case using await t' by (auto split: option.splits)
qed simp

text \<open>What a plan holds once a batch has been accepted.\<close>

definition plan_ips :: "('n, 'c) plan \<Rightarrow> ipv4addr list" where
  "plan_ips plan = map (\<lambda>(_, _, vm_ip, _). vm_ip) (plan_vms plan)"

definition plan_configs :: "('n, 'c) plan \<Rightarrow> 'n VmConfig list" where
  "plan_configs plan = map (\<lambda>(_, config, _, _). config) (plan_vms plan)"

lemma initialize_begin_ok:
  assumes "subnet_api (w_subnet W)" "rng_api (w_rng W)"
    and "initialize_begin envs W already net_type vms = (Inr plan, closed)"
  shows "\<not> already" "vms \<noteq> []" "length vms \<le> MAX_VMS" "closed = []" "plan_configs plan = vms"
    "DHCP_SERVER_MAC \<notin> cfg_mac_address ` set vms" "distinct (map cfg_mac_address vms)"
    "plan_ids plan = map (w_ids W) [0..<length vms]" "plan_net_type plan = net_type"
    "length (plan_ips plan) = length vms"
    "\<exists>gateway rest. net_hosts (w_subnet W) (plan_subnet plan) = gateway # rest \<and> distinct (gateway # plan_ips plan) \<and>
      (\<forall>a \<in> set (gateway # plan_ips plan). in_net (plan_subnet plan) a)"
proof -
  obtain h1 h2 where guards: "\<not> already" "vms \<noteq> []" "length vms \<le> MAX_VMS" "validate_macs [] vms = Inr ()"
    and find: "find_available_subnet (w_subnet W) (w_rng W) (w_interfaces W) SUBNET_PREFIX_LEN = Inr (h1, h2, plan_subnet plan)"
    and prep: "prepare_vms envs W 0 (drop 1 (net_hosts (w_subnet W) (plan_subnet plan))) vms = (Inr (plan_vms plan), closed)"
    and nt: "plan_net_type plan = net_type"
    using assms(3) by (auto simp: initialize_begin_def not_less split: if_splits sum.splits prod.splits)
  show "\<not> already" "vms \<noteq> []" "length vms \<le> MAX_VMS" "plan_net_type plan = net_type" using guards nt by simp_all
  show "DHCP_SERVER_MAC \<notin> cfg_mac_address ` set vms" "distinct (map cfg_mac_address vms)"
    using guards(4) by (auto simp: validate_macs_ok)
  note ok = prepare_vms_ok[OF prep]
  show "closed = []" "plan_configs plan = vms" "plan_ids plan = map (w_ids W) [0..<length vms]"
    using ok by (simp_all add: plan_configs_def plan_ids_def)
  have ips: "plan_ips plan = take (length vms) (drop 1 (net_hosts (w_subnet W) (plan_subnet plan)))"
    using ok by (simp add: plan_ips_def)
  then show "length (plan_ips plan) = length vms" using ok by simp
  note addresses = subnet_addresses[OF assms(1,2) find]
  obtain gateway rest where hosts: "net_hosts (w_subnet W) (plan_subnet plan) = gateway # rest"
    using addresses(1) by (cases "net_hosts (w_subnet W) (plan_subnet plan)") auto
  then have "set (plan_ips plan) \<subseteq> set rest" "distinct (plan_ips plan)"
    using addresses(2) ips by (auto dest: in_set_takeD)
  then show "\<exists>gateway rest. net_hosts (w_subnet W) (plan_subnet plan) = gateway # rest \<and> distinct (gateway # plan_ips plan) \<and>
      (\<forall>a \<in> set (gateway # plan_ips plan). in_net (plan_subnet plan) a)"
    using hosts addresses(2,3) by (intro exI[of _ gateway] exI[of _ rest]) auto
qed

lemma initialization_worker_ok:
  assumes "initialization_worker envs W plan mgr = (Inr (), mgr')" "distinct (plan_ids plan)" "hm_wf (proxy_tasks mgr)"
    and "\<And>vm_id. vm_id \<in> set (plan_ids plan) \<Longrightarrow> hm_get (proxy_tasks mgr) vm_id = Some AwaitingProxy"
  obtains network proxies where
    "mgr' = mgr\<lparr>config_calls := config_calls mgr', proxy_tasks := proxy_tasks mgr'\<rparr>"
    "hm_wf (proxy_tasks mgr')" "map fst proxies = plan_ids plan"
    "\<And>vm_id. hm_get (proxy_tasks mgr') vm_id =
       (case map_of proxies vm_id of Some p \<Rightarrow> Some (AwaitingStart p) | None \<Rightarrow> hm_get (proxy_tasks mgr) vm_id)"
    "create_proxies envs W network (plan_dns plan) 0 (plan_vms plan) = Inr proxies"
    "Network_new (w_subnet W) (w_config W) (plan_net_type plan) (plan_subnet plan)
       (zip (map cfg_mac_address (plan_configs plan)) (plan_ips plan))
       (concat (map2 (\<lambda>config vm_ip. map (\<lambda>port. (vm_ip, port)) (exposed_ports config)) (plan_configs plan) (plan_ips plan)))
       = (Inr network, config_calls mgr')"
proof -
  have zips: "map (\<lambda>(_, config, vm_ip, _). (cfg_mac_address config, vm_ip)) (plan_vms plan) =
      zip (map cfg_mac_address (plan_configs plan)) (plan_ips plan)"
    "map (\<lambda>(_, config, vm_ip, _). map (\<lambda>port. (vm_ip, port)) (exposed_ports config)) (plan_vms plan) =
      map2 (\<lambda>config vm_ip. map (\<lambda>port. (vm_ip, port)) (exposed_ports config)) (plan_configs plan) (plan_ips plan)"
    by (rule nth_equalityI; auto simp: plan_configs_def plan_ips_def split: prod.splits)+
  obtain network calls proxies tasks where nw: "Network_new (w_subnet W) (w_config W) (plan_net_type plan) (plan_subnet plan)
       (zip (map cfg_mac_address (plan_configs plan)) (plan_ips plan))
       (concat (map2 (\<lambda>config vm_ip. map (\<lambda>port. (vm_ip, port)) (exposed_ports config)) (plan_configs plan) (plan_ips plan)))
       = (Inr network, calls)"
    and cp: "create_proxies envs W network (plan_dns plan) 0 (plan_vms plan) = Inr proxies"
    and ho: "hand_over proxies (proxy_tasks mgr) = (Inr (), tasks)"
    and mgr': "mgr' = mgr\<lparr>config_calls := calls, proxy_tasks := tasks\<rparr>"
    using assms(1) unfolding initialization_worker_def Let_def zips
    by (auto split: prod.splits sum.splits)
  have ids: "map fst proxies = plan_ids plan"
    using create_proxies_ids[OF cp] by (simp add: plan_ids_def)
  have dom: "vm_id \<in> fst ` set proxies \<longleftrightarrow> vm_id \<in> set (plan_ids plan)" for vm_id
    using ids by (metis set_map)
  have "\<exists>tasks'. hand_over proxies (proxy_tasks mgr) = (Inr (), tasks') \<and> hm_wf tasks' \<and>
     (\<forall>vm_id. hm_get tasks' vm_id =
        (case map_of proxies vm_id of Some p \<Rightarrow> Some (AwaitingStart p) | None \<Rightarrow> hm_get (proxy_tasks mgr) vm_id))"
    by (rule hand_over_ok) (use assms(2-4) ids dom in auto)
  then show thesis using that[of proxies network] mgr' nw cp ids ho by auto
qed

text \<open>
  A batch of VMs in operation: the given network, one proxy per VM on its own address with the
  configured identity and policy, nothing left of the privileges.
\<close>

definition batch_active ::
  "(uuid \<Rightarrow> ('p, 'm, 'n, 'msg, 'z, 'c, 'rq, 'rs) env) \<Rightarrow> ('n, 'z, 'c, 'rq, 'rs) init_world \<Rightarrow> NetType \<Rightarrow>
   'n VmConfig list \<Rightarrow> Ipv4Net \<Rightarrow> ipv4addr \<Rightarrow> ipv4addr list \<Rightarrow> ('n, 'c) DnsServer option \<Rightarrow>
   ('m, 'n, 'c) Manager \<Rightarrow> bool" where
  "batch_active envs W net_type vms subnet gateway ips dns mgr \<longleftrightarrow>
     initialized mgr \<and> \<not> privileged mgr \<and> initialization mgr = None \<and> hm_wf (proxy_tasks mgr) \<and>
     default_vm_id mgr = (if length vms = 1 then Some (w_ids W 0) else None) \<and>
     set (proxy_handles mgr) = w_ids W ` {..<length vms} \<and>
     (\<forall>vm_id. hm_get (proxy_tasks mgr) vm_id \<noteq> None \<longleftrightarrow> vm_id \<in> w_ids W ` {..<length vms}) \<and>
     (\<forall>i < length vms. \<exists>p.
        hm_get (proxy_tasks mgr) (w_ids W i) = Some (Forwarding p) \<and>
        running (envs (w_ids W i)) (cfg_mac_address (vms ! i)) (ips ! i) gateway ips dns p \<and>
        px_allow p = normalize_rules (env_policy (envs (w_ids W i))) (cfg_allow (vms ! i)) \<and>
        px_block p = normalize_rules (env_policy (envs (w_ids W i))) (cfg_block (vms ! i))) \<and>
     config_calls mgr =
       NewConfiguration (case net_type of NetNat \<Rightarrow> ModeShared | NetHost \<Rightarrow> ModeHost) #
       network_setup gateway (net_netmask (w_subnet W) subnet) (zip (map cfg_mac_address vms) ips)
         (concat (map2 (\<lambda>config vm_ip. map (\<lambda>port. (vm_ip, port)) (exposed_ports config)) vms ips))"

lemma Proxy_new_policy:
  assumes "Proxy_new env vm mac vm_ip gateway netmask ips allow block dns now = Inr p"
  shows "px_allow p = normalize_rules (env_policy env) allow" "px_block p = normalize_rules (env_policy env) block"
    "running env mac vm_ip gateway ips dns p"
  using assms reachable_running[OF assms proxy_reachable.start]
  by (auto simp: Proxy_new_def Let_def result_iffs)

lemma start_tasks_get:
  "hm_get (proxy_tasks (start_tasks mgr)) vm_id = map_option start_task (hm_get (proxy_tasks mgr) vm_id)"
  "hm_wf (proxy_tasks (start_tasks mgr)) = hm_wf (proxy_tasks mgr)"
  using hm_get_map[of "\<lambda>_. start_task"] hm_wf_map[of "\<lambda>_. start_task"] by (simp_all add: start_tasks_def)

lemma start_tasks_fields [simp]:
  "initialized (start_tasks mgr) = initialized mgr" "privileged (start_tasks mgr) = privileged mgr"
  "initialization (start_tasks mgr) = initialization mgr" "default_vm_id (start_tasks mgr) = default_vm_id mgr"
  "proxy_handles (start_tasks mgr) = proxy_handles mgr" "config_calls (start_tasks mgr) = config_calls mgr"
  by (simp_all add: start_tasks_def)

lemma plan_entry:
  assumes "plan_configs plan = vms" "plan_ids plan = map ids [0..<length vms]" "i < length vms"
  shows "length (plan_vms plan) = length vms" "\<exists>vm. plan_vms plan ! i = (vm, vms ! i, plan_ips plan ! i, ids i)"
proof -
  show n: "length (plan_vms plan) = length vms" using assms(1) by (auto simp: plan_configs_def)
  obtain vm config ip vm_id where e: "plan_vms plan ! i = (vm, config, ip, vm_id)" by (cases "plan_vms plan ! i")
  have "plan_configs plan ! i = config" "plan_ips plan ! i = ip" "plan_ids plan ! i = vm_id"
    using assms(3) n e by (simp_all add: plan_configs_def plan_ips_def plan_ids_def)
  then show "\<exists>vm. plan_vms plan ! i = (vm, vms ! i, plan_ips plan ! i, ids i)"
    using assms e by simp
qed

lemma plan_initialized_order:
  assumes "plan_configs plan = vms" "plan_ids plan = map ids [0..<length vms]"
  shows "plan_initialized plan = map (\<lambda>i. (ids i, cfg_mac_address (vms ! i))) [0..<length vms]"
proof (rule nth_equalityI)
  show n: "length (plan_initialized plan) = length (map (\<lambda>i. (ids i, cfg_mac_address (vms ! i))) [0..<length vms])"
    using assms(1) by (auto simp: plan_initialized_def plan_configs_def)
  fix i assume "i < length (plan_initialized plan)"
  then have i: "i < length vms" using n by simp
  obtain vm where "plan_vms plan ! i = (vm, vms ! i, plan_ips plan ! i, ids i)"
    using plan_entry(2)[OF assms i] by blast
  then show "plan_initialized plan ! i = map (\<lambda>i. (ids i, cfg_mac_address (vms ! i))) [0..<length vms] ! i"
    using i plan_entry(1)[OF assms i] by (simp add: plan_initialized_def)
qed

lemma plan_default:
  "(case map (\<lambda>i. (ids i, f i)) [0..<n] of [(vm_id, _)] \<Rightarrow> Some vm_id | _ \<Rightarrow> None) =
   (if n = 1 then Some (ids 0) else None)"
proof (cases n)
  case (Suc m)
  then show ?thesis by (cases m) (simp_all add: upt_conv_Cons del: upt_Suc)
qed simp

lemma activation_ok:
  assumes "finish_initialization envs W (register_tasks mgr plan) = (Inr (), mgr')" "distinct (plan_ids plan)"
    and fresh: "proxy_tasks mgr = []" "proxy_handles mgr = []"
  obtains network proxies where
    "initialization mgr' = None" "set (proxy_handles mgr') = set (plan_ids plan)" "hm_wf (proxy_tasks mgr')"
    "\<And>vm_id. hm_get (proxy_tasks mgr') vm_id = map_option AwaitingStart (map_of proxies vm_id)"
    "map fst proxies = plan_ids plan"
    "create_proxies envs W network (plan_dns plan) 0 (plan_vms plan) = Inr proxies"
    "Network_new (w_subnet W) (w_config W) (plan_net_type plan) (plan_subnet plan)
       (zip (map cfg_mac_address (plan_configs plan)) (plan_ips plan))
       (concat (map2 (\<lambda>config vm_ip. map (\<lambda>port. (vm_ip, port)) (exposed_ports config)) (plan_configs plan) (plan_ips plan)))
       = (Inr network, config_calls mgr')"
proof -
  let ?reg = "register_tasks mgr plan"
  have wf: "hm_wf (proxy_tasks ?reg)"
    and get: "\<And>vm_id. hm_get (proxy_tasks ?reg) vm_id = (if vm_id \<in> set (plan_ids plan) then Some AwaitingProxy else None)"
    using fresh by (simp_all add: register_tasks_eq awaiting_tasks)
  obtain mgr2 where worker: "initialization_worker envs W plan ?reg = (Inr (), mgr2)"
    and mgr': "mgr' = mgr2\<lparr>initialization := None\<rparr>"
    using assms(1) by (auto simp: finish_initialization_def register_tasks_eq split: prod.splits)
  have await: "vm_id \<in> set (plan_ids plan) \<Longrightarrow> hm_get (proxy_tasks ?reg) vm_id = Some AwaitingProxy" for vm_id
    using get by simp
  show thesis
  proof (rule initialization_worker_ok[OF worker assms(2) wf await])
    fix network proxies
    assume w: "mgr2 = ?reg\<lparr>config_calls := config_calls mgr2, proxy_tasks := proxy_tasks mgr2\<rparr>"
      "hm_wf (proxy_tasks mgr2)" "map fst proxies = plan_ids plan"
      "\<And>vm_id. hm_get (proxy_tasks mgr2) vm_id = (case map_of proxies vm_id of
        Some p \<Rightarrow> Some (AwaitingStart p) | None \<Rightarrow> hm_get (proxy_tasks ?reg) vm_id)"
      "create_proxies envs W network (plan_dns plan) 0 (plan_vms plan) = Inr proxies"
      "Network_new (w_subnet W) (w_config W) (plan_net_type plan) (plan_subnet plan)
       (zip (map cfg_mac_address (plan_configs plan)) (plan_ips plan))
       (concat (map2 (\<lambda>config vm_ip. map (\<lambda>port. (vm_ip, port)) (exposed_ports config)) (plan_configs plan) (plan_ips plan)))
       = (Inr network, config_calls mgr2)"
    have "map_of proxies vm_id = None \<longleftrightarrow> vm_id \<notin> set (plan_ids plan)" for vm_id
      using w(3) by (metis map_of_eq_None_iff set_map)
    then have "hm_get (proxy_tasks mgr') vm_id = map_option AwaitingStart (map_of proxies vm_id)" for vm_id
      using get[of vm_id] w(4)[of vm_id] by (auto simp: mgr' split: option.splits)
    moreover have "proxy_handles mgr2 = proxy_handles ?reg" by (subst w(1)) simp
    then have "set (proxy_handles mgr') = set (plan_ids plan)"
      using fresh by (simp add: mgr' register_tasks_eq set_fold_insert)
    ultimately show thesis using that[of proxies network] w mgr' by simp
  qed
qed

lemma batch_proxy:
  assumes cp: "create_proxies envs W network (plan_dns plan) 0 (plan_vms plan) = Inr proxies"
    and pids: "map fst proxies = plan_ids plan" "distinct (plan_ids plan)"
    and plan: "plan_configs plan = vms" "plan_ids plan = map (w_ids W) [0..<length vms]"
    and i: "i < length vms"
  shows "\<exists>p. map_of proxies (w_ids W i) = Some p \<and>
    running (envs (w_ids W i)) (cfg_mac_address (vms ! i)) (plan_ips plan ! i) (nw_gateway_ip network)
      (nw_vm_ips network) (plan_dns plan) p \<and>
    px_allow p = normalize_rules (env_policy (envs (w_ids W i))) (cfg_allow (vms ! i)) \<and>
    px_block p = normalize_rules (env_policy (envs (w_ids W i))) (cfg_block (vms ! i))"
proof -
  obtain vm where e: "plan_vms plan ! i = (vm, vms ! i, plan_ips plan ! i, w_ids W i)"
    using plan_entry(2)[OF plan i] by blast
  have "i < length (plan_vms plan)" using plan_entry(1)[OF plan i] i by simp
  from create_proxies_nth[OF cp this e] pids obtain p where p: "map_of proxies (w_ids W i) = Some p"
    and new: "Proxy_new (envs (w_ids W i)) vm (cfg_mac_address (vms ! i)) (plan_ips plan ! i) (nw_gateway_ip network)
       (net_netmask (w_subnet W) (nw_subnet network)) (nw_vm_ips network)
       (cfg_allow (vms ! i)) (cfg_block (vms ! i)) (plan_dns plan) (w_now W (w_ids W i)) = Inr p"
    by auto
  show ?thesis using p Proxy_new_policy[OF new] by blast
qed

lemma initialize_cases:
  assumes "initialize envs W mgr net_type vms = (Inr vs, mgr', closed)"
  obtains plan mgr1 where "initialize_begin envs W (initialized mgr) net_type vms = (Inr plan, closed)"
    "finish_initialization envs W (register_tasks mgr plan) = (Inr (), mgr1)" "vs = plan_initialized plan"
    "mgr' = start_tasks (mgr1\<lparr>privileged := False, initialized := True,
        default_vm_id := (case plan_initialized plan of [(vm_id, _)] \<Rightarrow> Some vm_id | _ \<Rightarrow> None)\<rparr>)"
  using assms unfolding initialize_def
  by (auto split: prod.split_asm sum.split_asm if_split_asm)

lemma batch_activated:
  assumes fin: "finish_initialization envs W (register_tasks mgr plan) = (Inr (), mgr1)"
    and fresh: "proxy_tasks mgr = []" "proxy_handles mgr = []" and ids: "inj_on (w_ids W) {..<length vms}"
    and plan: "plan_configs plan = vms" "plan_ids plan = map (w_ids W) [0..<length vms]"
      "length (plan_ips plan) = length vms" "net_hosts (w_subnet W) (plan_subnet plan) = gateway # rest"
  shows "batch_active envs W (plan_net_type plan) vms (plan_subnet plan) gateway (plan_ips plan) (plan_dns plan)
    (start_tasks (mgr1\<lparr>privileged := False, initialized := True,
      default_vm_id := (if length vms = 1 then Some (w_ids W 0) else None)\<rparr>))"
proof -
  have dist: "distinct (plan_ids plan)" and set_ids: "set (plan_ids plan) = w_ids W ` {..<length vms}"
    using ids unfolding plan(2) by (simp_all add: distinct_map lessThan_atLeast0)
  obtain proxies network where none: "initialization mgr1 = None"
    and handles: "set (proxy_handles mgr1) = set (plan_ids plan)" and wf: "hm_wf (proxy_tasks mgr1)"
    and get: "\<And>vm_id. hm_get (proxy_tasks mgr1) vm_id = map_option AwaitingStart (map_of proxies vm_id)"
    and pids: "map fst proxies = plan_ids plan"
    and cp: "create_proxies envs W network (plan_dns plan) 0 (plan_vms plan) = Inr proxies"
    and nw: "Network_new (w_subnet W) (w_config W) (plan_net_type plan) (plan_subnet plan)
       (zip (map cfg_mac_address (plan_configs plan)) (plan_ips plan))
       (concat (map2 (\<lambda>config vm_ip. map (\<lambda>port. (vm_ip, port)) (exposed_ports config)) (plan_configs plan) (plan_ips plan)))
       = (Inr network, config_calls mgr1)"
    by (rule activation_ok[OF fin dist fresh]) (rule that)
  note net = Network_new_ok[OF nw]
  have gw: "nw_gateway_ip network = gateway" using net(2) plan(4) by auto
  have vm_ips: "nw_vm_ips network = plan_ips plan" using net(3) plan(1,3) by simp
  have tasks: "map_option start_task (hm_get (proxy_tasks mgr1) vm_id) = map_option Forwarding (map_of proxies vm_id)" for vm_id
    by (cases "map_of proxies vm_id") (simp_all add: get start_task_def)
  have dom: "map_of proxies vm_id \<noteq> None \<longleftrightarrow> vm_id \<in> w_ids W ` {..<length vms}" for vm_id
    unfolding set_ids[symmetric] pids[symmetric] by (simp add: map_of_eq_None_iff)
  have "\<exists>p. map_option start_task (hm_get (proxy_tasks mgr1) (w_ids W i)) = Some (Forwarding p) \<and>
      running (envs (w_ids W i)) (cfg_mac_address (vms ! i)) (plan_ips plan ! i) gateway (plan_ips plan) (plan_dns plan) p \<and>
      px_allow p = normalize_rules (env_policy (envs (w_ids W i))) (cfg_allow (vms ! i)) \<and>
      px_block p = normalize_rules (env_policy (envs (w_ids W i))) (cfg_block (vms ! i))" if "i < length vms" for i
    using batch_proxy[OF cp pids dist plan(1,2) that] tasks gw vm_ips by fastforce
  then show ?thesis
    using none handles wf set_ids tasks dom net(4) gw plan(1) by (simp add: batch_active_def start_tasks_get)
qed

lemma initialize_active:
  assumes api: "subnet_api (w_subnet W)" "rng_api (w_rng W)"
    and ids: "inj_on (w_ids W) {..<length vms}"
    and fresh: "proxy_tasks mgr = []" "proxy_handles mgr = []"
    and init: "initialize envs W mgr net_type vms = (Inr vs, mgr', closed)"
  shows "closed = []" "vs = map (\<lambda>i. (w_ids W i, cfg_mac_address (vms ! i))) [0..<length vms]"
    "DHCP_SERVER_MAC \<notin> cfg_mac_address ` set vms" "distinct (map cfg_mac_address vms)"
    "\<exists>subnet gateway ips dns. length ips = length vms \<and> distinct (gateway # ips) \<and>
      (\<forall>a \<in> set (gateway # ips). in_net subnet a) \<and>
      batch_active envs W net_type vms subnet gateway ips dns mgr'"
proof -
  obtain plan mgr1 where start: "initialize_begin envs W (initialized mgr) net_type vms = (Inr plan, closed)"
    and fin: "finish_initialization envs W (register_tasks mgr plan) = (Inr (), mgr1)"
    and vs: "vs = plan_initialized plan"
    and mgr': "mgr' = start_tasks (mgr1\<lparr>privileged := False, initialized := True,
        default_vm_id := (case plan_initialized plan of [(vm_id, _)] \<Rightarrow> Some vm_id | _ \<Rightarrow> None)\<rparr>)"
    using initialize_cases[OF init] .
  note plan = initialize_begin_ok[OF api start]
  show "closed = []" "DHCP_SERVER_MAC \<notin> cfg_mac_address ` set vms" "distinct (map cfg_mac_address vms)"
    using plan(4,6,7) by simp_all
  note order = plan_initialized_order[OF plan(5,8)]
  show "vs = map (\<lambda>i. (w_ids W i, cfg_mac_address (vms ! i))) [0..<length vms]" unfolding vs order ..
  obtain gateway rest where hosts: "net_hosts (w_subnet W) (plan_subnet plan) = gateway # rest"
    "distinct (gateway # plan_ips plan)" "\<forall>a \<in> set (gateway # plan_ips plan). in_net (plan_subnet plan) a"
    using plan(11) by blast
  have "batch_active envs W net_type vms (plan_subnet plan) gateway (plan_ips plan) (plan_dns plan) mgr'"
    using batch_activated[OF fin fresh ids plan(5,8,10) hosts(1)] unfolding plan(9) mgr' order plan_default .
  then show "\<exists>subnet gateway ips dns. length ips = length vms \<and> distinct (gateway # ips) \<and>
      (\<forall>a \<in> set (gateway # ips). in_net subnet a) \<and> batch_active envs W net_type vms subnet gateway ips dns mgr'"
    using plan(10) hosts(2,3) by blast
qed

lemma initialize_rejected:
  assumes "subnet_api (w_subnet W)" "rng_api (w_rng W)"
    and "initialize envs W mgr net_type vms = (Inl e, mgr', closed)" "\<And>x. e \<noteq> ActivationFailed x"
  shows "mgr' = mgr" "mset closed = mset (batch_duplicates envs W 0 (take (rejected_after e vms) vms))"
proof -
  have start: "initialize_begin envs W (initialized mgr) net_type vms = (Inl e, closed)" and "mgr' = mgr"
    using assms(3,4) unfolding initialize_def by (auto split: prod.split_asm sum.split_asm if_split_asm)
  then show "mgr' = mgr" by simp
  have "rejected_after e vms = 0 \<and> closed = [] \<or>
      (\<exists>h1 h2 subnet. length vms \<le> MAX_VMS \<and>
        find_available_subnet (w_subnet W) (w_rng W) (w_interfaces W) SUBNET_PREFIX_LEN = Inr (h1, h2, subnet) \<and>
        ((\<exists>err. e = Rejected err \<and> prepare_vms envs W 0 (drop 1 (net_hosts (w_subnet W) subnet)) vms = (Inl err, closed)) \<or>
         (\<exists>err configured closed'. e = InvalidParams err \<and> closed = closed' @ map (\<lambda>(vm, _). sock vm) configured \<and>
           prepare_vms envs W 0 (drop 1 (net_hosts (w_subnet W) subnet)) vms = (Inr configured, closed'))))"
    using start unfolding initialize_begin_def
    by (auto simp: rejected_after_def not_less validate_macs_error
        split: if_split_asm sum.split_asm prod.split_asm manager_error.splits)
  then show "mset closed = mset (batch_duplicates envs W 0 (take (rejected_after e vms) vms))"
  proof (elim disjE exE conjE)
    fix h1 h2 subnet err
    assume "length vms \<le> MAX_VMS" and e: "e = Rejected err"
      and find: "find_available_subnet (w_subnet W) (w_rng W) (w_interfaces W) SUBNET_PREFIX_LEN = Inr (h1, h2, subnet)"
      and prep: "prepare_vms envs W 0 (drop 1 (net_hosts (w_subnet W) subnet)) vms = (Inl err, closed)"
    then have "length vms \<le> length (drop 1 (net_hosts (w_subnet W) subnet))"
      using subnet_addresses(1)[OF assms(1,2) find] by (simp add: MAX_VMS_def)
    from prepare_vms_failed[OF prep this] show ?thesis by (auto simp: e rejected_after_def)
  next
    fix subnet err configured closed'
    assume "e = InvalidParams err" "closed = closed' @ map (\<lambda>(vm, _). sock vm) configured"
      "prepare_vms envs W 0 (drop 1 (net_hosts (w_subnet W) subnet)) vms = (Inr configured, closed')"
    then show ?thesis using prepare_vms_ok by (fastforce simp: rejected_after_def)
  qed simp
qed

section \<open>The invariant of the manager\<close>

text \<open>Two VMs in operation never share an address, and know each other as peers.\<close>

definition separate :: "(uuid, ('m, 'n, 'c) task) hashmap \<Rightarrow> bool" where
  "separate tasks \<longleftrightarrow>
     (\<forall>i j p q. i \<noteq> j \<and> hm_get tasks i = Some (Forwarding p) \<and> hm_get tasks j = Some (Forwarding q) \<longrightarrow>
        host_vm_ip (px_host p) \<noteq> host_vm_ip (px_host q) \<and> vm_mac_address p \<noteq> vm_mac_address q \<and>
        host_vm_ip (px_host q) \<in> set (peer_ips p))"

definition task_ok :: "('p, 'm, 'n, 'msg, 'z, 'c, 'rq, 'rs) env \<Rightarrow> ('m, 'n, 'c) task \<Rightarrow> bool" where
  "task_ok env t = (case t of Forwarding p \<Rightarrow> proxy_wf env p | Finished _ \<Rightarrow> True | _ \<Rightarrow> False)"

definition manager_wf ::
  "(uuid \<Rightarrow> ('p, 'm, 'n, 'msg, 'z, 'c, 'rq, 'rs) env) \<Rightarrow> ('m, 'n, 'c) Manager \<Rightarrow> bool" where
  "manager_wf envs mgr \<longleftrightarrow>
     hm_wf (proxy_tasks mgr) \<and> initialization mgr = None \<and>
     (\<forall>vm_id. vm_id \<in> set (proxy_handles mgr) \<longleftrightarrow> hm_get (proxy_tasks mgr) vm_id \<noteq> None) \<and>
     (\<forall>vm_id t. hm_get (proxy_tasks mgr) vm_id = Some t \<longrightarrow>
        initialized mgr \<and> \<not> privileged mgr \<and> task_ok (envs vm_id) t) \<and>
     (\<forall>d vm_id. default_vm_id mgr = Some d \<and> hm_get (proxy_tasks mgr) vm_id \<noteq> None \<longrightarrow> vm_id = d) \<and>
     separate (proxy_tasks mgr)"

lemma manager_new_wf: "manager_wf envs (Manager_new user_name group_name control)"
  by (simp add: manager_wf_def Manager_new_def separate_def)

lemma manager_wf_uninitialized:
  assumes "manager_wf envs mgr" "\<not> initialized mgr"
  shows "proxy_tasks mgr = []" "proxy_handles mgr = []"
proof -
  have "hm_get (proxy_tasks mgr) vm_id = None" for vm_id
    using assms by (cases "hm_get (proxy_tasks mgr) vm_id") (auto simp: manager_wf_def)
  then show "proxy_tasks mgr = []" by (rule hm_get_all_None)
  then show "proxy_handles mgr = []" using assms(1) by (auto simp: manager_wf_def)
qed

lemma manager_wf_task:
  assumes "manager_wf envs mgr" "hm_get (proxy_tasks mgr) vm_id = Some t"
  shows "initialized mgr" "\<not> privileged mgr" "task_ok (envs vm_id) t"
  using assms by (simp_all add: manager_wf_def)

lemma separateD:
  assumes "separate tasks" "i \<noteq> j" "hm_get tasks i = Some (Forwarding p)" "hm_get tasks j = Some (Forwarding q)"
  shows "host_vm_ip (px_host p) \<noteq> host_vm_ip (px_host q)" "vm_mac_address p \<noteq> vm_mac_address q"
    "host_vm_ip (px_host q) \<in> set (peer_ips p)"
  using assms unfolding separate_def by blast+

lemma separate_update:
  assumes sep: "separate tasks" and old: "hm_get tasks vm_id = Some (Forwarding p)"
    and t: "\<And>q. t = Forwarding q \<Longrightarrow> same_identity p q"
  shows "separate (hm_insert vm_id t tasks)"
  unfolding separate_def
proof (intro allI impI)
  fix i j q r
  assume h: "i \<noteq> j \<and> hm_get (hm_insert vm_id t tasks) i = Some (Forwarding q) \<and>
    hm_get (hm_insert vm_id t tasks) j = Some (Forwarding r)"
  have "\<exists>q'. hm_get tasks k = Some (Forwarding q') \<and> same_identity q' u"
    if "hm_get (hm_insert vm_id t tasks) k = Some (Forwarding u)" for k u
    using that old t[of u] by (cases "k = vm_id") (auto simp: same_identity_def)
  then obtain q' r' where "hm_get tasks i = Some (Forwarding q')" "same_identity q' q"
    "hm_get tasks j = Some (Forwarding r')" "same_identity r' r" using h by blast
  with separateD[OF sep, of i j q' r'] h
  show "host_vm_ip (px_host q) \<noteq> host_vm_ip (px_host r) \<and> vm_mac_address q \<noteq> vm_mac_address r \<and>
      host_vm_ip (px_host r) \<in> set (peer_ips q)"
    by (simp add: same_identity_def)
qed

text \<open>A running task may step to one of the same identity or end; nothing else changes.\<close>

lemma update_task_wf:
  assumes wf: "manager_wf envs mgr" and old: "hm_get (proxy_tasks mgr) vm_id = Some (Forwarding p)"
    and t: "task_ok (envs vm_id) t" "\<And>q. t = Forwarding q \<Longrightarrow> same_identity p q"
  shows "manager_wf envs (mgr\<lparr>proxy_tasks := hm_insert vm_id t (proxy_tasks mgr)\<rparr>)"
proof -
  have "separate (hm_insert vm_id t (proxy_tasks mgr))"
    by (rule separate_update[OF _ old t(2)]) (use wf in \<open>simp_all add: manager_wf_def\<close>)
  then show ?thesis
    using wf old t(1) manager_wf_task[OF wf old] by (simp add: manager_wf_def)
qed

lemma finish_control_wf: "manager_wf envs mgr \<Longrightarrow> manager_wf envs (finish_control mgr)"
  by (simp add: manager_wf_def finish_control_def)

lemma reap_task_wf:
  assumes "manager_wf envs mgr" "reap_task mgr vm_id result = (r, mgr')"
  shows "manager_wf envs mgr'"
proof -
  have "separate (hm_remove vm_id (proxy_tasks mgr))"
    using assms(1) by (auto simp: manager_wf_def separate_def split: if_splits)
  then show ?thesis using assms unfolding manager_wf_def by (auto simp: reap_task_def split: if_splits)
qed

lemma select_branch_keeps:
  assumes "proxy_wf env p" "select_branch env p event = (e, q, out)"
  shows "proxy_wf env q" "same_identity p q"
  using select_branch_reachable[OF proxy_reachable.start assms(2)] reachable_wf reachable_identity assms(1)
  by blast+

lemma task_event_ok:
  assumes "proxy_wf env p"
  shows "task_ok env (task_event env p event)" "task_event env p event = Forwarding q \<Longrightarrow> same_identity p q"
  using select_branch_keeps[OF assms]
  by (auto simp: task_event_def task_ok_def split: prod.splits option.splits)

lemma on_command_keeps:
  assumes "proxy_wf env p" "on_command env p (Some command) now = (e, q, reply)"
  shows "proxy_wf env q" "same_identity p q"
proof -
  have "select_branch env p (CommandReceived (Some command) now) = (e, q, [])"
    using assms(2) by (simp add: select_branch_def)
  then show "proxy_wf env q" "same_identity p q" using select_branch_keeps[OF assms(1)] by blast+
qed

lemma proxy_request_wf:
  assumes "manager_wf envs mgr" "proxy_request envs mgr vm_id command now = (r, mgr')"
  shows "manager_wf envs mgr'"
proof (cases "\<exists>p. hm_get (proxy_tasks mgr) vm_id = Some (Forwarding p)")
  case True
  then obtain p where p: "hm_get (proxy_tasks mgr) vm_id = Some (Forwarding p)" by blast
  then have wf: "proxy_wf (envs vm_id) p" using manager_wf_task(3)[OF assms(1) p] by (simp add: task_ok_def)
  obtain e q reply where c: "on_command (envs vm_id) p (Some command) now = (e, q, reply)"
    by (cases "on_command (envs vm_id) p (Some command) now")
  have "mgr' = mgr\<lparr>proxy_tasks := hm_insert vm_id (Forwarding q) (proxy_tasks mgr)\<rparr>"
    using assms(2) p c by (simp add: proxy_request_def)
  then show ?thesis
    using update_task_wf[OF assms(1) p, of "Forwarding q"] on_command_keeps[OF wf c] by (simp add: task_ok_def)
next
  case False
  then have "mgr' = mgr"
    using assms(2) by (auto simp: proxy_request_def split: option.splits task.splits)
  then show ?thesis using assms(1) by simp
qed

text \<open>What the manager relies on of the system during an initialization.\<close>

definition good_world :: "('n, 'z, 'c, 'rq, 'rs) init_world \<Rightarrow> bool" where
  "good_world W \<longleftrightarrow> subnet_api (w_subnet W) \<and> rng_api (w_rng W) \<and> inj_on (w_ids W) {..<MAX_VMS}"

lemma batch_active_fields:
  assumes "batch_active envs W net_type vms subnet gateway ips dns mgr"
  shows "initialized mgr" "\<not> privileged mgr" "initialization mgr = None" "hm_wf (proxy_tasks mgr)"
    "default_vm_id mgr = (if length vms = 1 then Some (w_ids W 0) else None)"
    "set (proxy_handles mgr) = w_ids W ` {..<length vms}"
    "\<And>vm_id. hm_get (proxy_tasks mgr) vm_id \<noteq> None \<longleftrightarrow> vm_id \<in> w_ids W ` {..<length vms}"
    "\<And>i. i < length vms \<Longrightarrow> \<exists>p. hm_get (proxy_tasks mgr) (w_ids W i) = Some (Forwarding p) \<and>
      running (envs (w_ids W i)) (cfg_mac_address (vms ! i)) (ips ! i) gateway ips dns p"
  using assms unfolding batch_active_def by (elim conjE; blast)+

lemma batch_active_task:
  assumes act: "batch_active envs W net_type vms subnet gateway ips dns mgr"
    and t: "hm_get (proxy_tasks mgr) vm_id = Some t"
  shows "\<exists>i p. i < length vms \<and> vm_id = w_ids W i \<and> t = Forwarding p \<and>
    running (envs vm_id) (cfg_mac_address (vms ! i)) (ips ! i) gateway ips dns p"
proof -
  obtain i where i: "i < length vms" "vm_id = w_ids W i"
    using batch_active_fields(7)[OF act, of vm_id] t by auto
  from batch_active_fields(8)[OF act i(1)] i t show ?thesis by auto
qed

lemma batch_active_separate:
  assumes act: "batch_active envs W net_type vms subnet gateway ips dns mgr"
    and macs: "distinct (map cfg_mac_address vms)" and ips: "length ips = length vms" "distinct ips"
  shows "separate (proxy_tasks mgr)"
  unfolding separate_def
proof (intro allI impI)
  fix a b p q
  assume h: "a \<noteq> b \<and> hm_get (proxy_tasks mgr) a = Some (Forwarding p) \<and> hm_get (proxy_tasks mgr) b = Some (Forwarding q)"
  obtain i where i: "i < length vms" "a = w_ids W i" "running (envs a) (cfg_mac_address (vms ! i)) (ips ! i) gateway ips dns p"
    using batch_active_task[OF act, of a "Forwarding p"] h by auto
  obtain j where j: "j < length vms" "b = w_ids W j" "running (envs b) (cfg_mac_address (vms ! j)) (ips ! j) gateway ips dns q"
    using batch_active_task[OF act, of b "Forwarding q"] h by auto
  have "i \<noteq> j" using h i(2) j(2) by blast
  then have "ips ! i \<noteq> ips ! j" "map cfg_mac_address vms ! i \<noteq> map cfg_mac_address vms ! j"
    using i(1) j(1) ips macs by (simp_all only: nth_eq_iff_index_eq length_map not_False_eq_True)
  then show "host_vm_ip (px_host p) \<noteq> host_vm_ip (px_host q) \<and> vm_mac_address p \<noteq> vm_mac_address q \<and>
      host_vm_ip (px_host q) \<in> set (peer_ips p)"
    using i j ips(1) by (auto simp: running_def)
qed

lemma batch_active_wf:
  assumes act: "batch_active envs W net_type vms subnet gateway ips dns mgr"
    and "distinct (map cfg_mac_address vms)" "length ips = length vms" "distinct ips"
  shows "manager_wf envs mgr"
proof -
  note fields = batch_active_fields[OF act]
  have "task_ok (envs vm_id) t" if "hm_get (proxy_tasks mgr) vm_id = Some t" for vm_id t
    using batch_active_task[OF act that] by (auto simp: task_ok_def running_def)
  moreover have "vm_id = d" if "default_vm_id mgr = Some d" "hm_get (proxy_tasks mgr) vm_id \<noteq> None" for d vm_id
    using that fields(5) fields(7)[of vm_id] by (auto split: if_splits)
  ultimately show ?thesis
    unfolding manager_wf_def using fields(1-4) fields(6,7) batch_active_separate[OF assms] by blast
qed

lemma good_worldD:
  assumes "good_world W"
  shows "subnet_api (w_subnet W)" "rng_api (w_rng W)"
  using assms by (simp_all add: good_world_def)

lemma good_world_ids:
  assumes "good_world W" "initialize envs W mgr net_type vms = (Inr vs, mgr', closed)"
  shows "inj_on (w_ids W) {..<length vms}"
proof -
  obtain plan where "initialize_begin envs W (initialized mgr) net_type vms = (Inr plan, closed)"
    using initialize_cases[OF assms(2)] by blast
  then have "length vms \<le> MAX_VMS" using initialize_begin_ok(3)[OF good_worldD[OF assms(1)]] by blast
  then show ?thesis using assms(1) by (auto simp: good_world_def intro: inj_on_subset)
qed

lemma initialize_wf:
  assumes "manager_wf envs mgr" "good_world W" "initialize envs W mgr net_type vms = (r, mgr', closed)"
    and "\<And>e. r \<noteq> Inl (ActivationFailed e)"
  shows "manager_wf envs mgr'"
proof (cases r)
  case (Inl e)
  then have "mgr' = mgr"
    using initialize_rejected(1)[of W envs mgr net_type vms e mgr' closed] assms(2-4) by (auto simp: good_world_def)
  then show ?thesis using assms(1) by simp
next
  case (Inr vs)
  have "\<not> initialized mgr"
    using assms(3) Inr by (auto simp: initialize_def initialize_begin_def split: if_splits)
  note fresh = manager_wf_uninitialized[OF assms(1) this]
  note act = initialize_active[OF good_worldD[OF assms(2)] good_world_ids[OF assms(2) assms(3)[unfolded Inr]]
      fresh assms(3)[unfolded Inr]]
  then show ?thesis using batch_active_wf[OF _ act(4)] by auto
qed

lemma dispatch_wf:
  assumes "manager_wf envs mgr" "good_world W" "dispatch envs W now mgr request = (Inr (), mgr', reply, closed)"
  shows "manager_wf envs mgr'"
proof (cases request)
  case (Initialize net_type vms)
  obtain r mgr1 closed1 where i: "initialize envs W mgr net_type vms = (r, mgr1, closed1)"
    by (cases "initialize envs W mgr net_type vms")
  have "mgr' = mgr1" "\<And>e. r \<noteq> Inl (ActivationFailed e)"
    using assms(3) Initialize i by (auto simp: dispatch_def split: sum.splits InitializationError.splits)
  then show ?thesis using initialize_wf[OF assms(1,2) i] by simp
next
  case (GetPolicy vm_id)
  then show ?thesis
    using assms(1,3) proxy_request_wf[OF assms(1)] by (auto simp: dispatch_def split: sum.splits prod.splits)
next
  case (SetPolicy vm_id allow block)
  then show ?thesis
    using assms(1,3) proxy_request_wf[OF assms(1)] by (auto simp: dispatch_def split: sum.splits prod.splits)
qed

text \<open>Tasks of a failed activation: none of them has ever forwarded.\<close>

definition waiting :: "('m, 'n, 'c) task \<Rightarrow> bool" where
  "waiting t = (case t of AwaitingProxy \<Rightarrow> True | AwaitingStart _ \<Rightarrow> True | _ \<Rightarrow> False)"

lemma hand_over_waiting:
  "hand_over proxies tasks = (r, tasks') \<Longrightarrow> (\<And>vm_id t. hm_get tasks vm_id = Some t \<Longrightarrow> waiting t) \<Longrightarrow>
   hm_get tasks' vm_id = Some t \<Longrightarrow> waiting t"
proof (induction proxies tasks rule: hand_over.induct)
  case (2 vm_id' proxy proxies tasks)
  show ?case
  proof (cases "hm_get tasks vm_id' = Some AwaitingProxy")
    case True
    show ?thesis
      by (rule 2(1)[OF True refl]) (use 2(2-4) True in \<open>auto simp: waiting_def split: if_splits\<close>)
  next
    case False
    then have "tasks' = tasks" using 2(2) by (auto split: option.splits task.splits)
    then show ?thesis using 2(3,4) by simp
  qed
qed simp

lemma worker_waiting:
  assumes "initialization_worker envs W plan mgr = (r, mgr')"
    and "\<And>vm_id t. hm_get (proxy_tasks mgr) vm_id = Some t \<Longrightarrow> waiting t"
    and "hm_get (proxy_tasks mgr') vm_id = Some t"
  shows "waiting t"
  using assms hand_over_waiting[OF _ assms(2)]
  by (auto simp: initialization_worker_def Let_def split: prod.splits sum.splits)

lemma release_not_forwarding:
  assumes "\<And>t. hm_get (proxy_tasks mgr) vm_id = Some t \<Longrightarrow> waiting t"
  shows "hm_get (proxy_tasks (release_tasks envs mgr)) vm_id \<noteq> Some (Forwarding p)"
proof -
  have "hm_get (proxy_tasks (release_tasks envs mgr)) vm_id =
      map_option (release_task envs vm_id) (hm_get (proxy_tasks mgr) vm_id)"
    using hm_get_map[of "release_task envs"] by (simp add: release_tasks_def)
  then show ?thesis
    using assms by (auto simp: release_task_def waiting_def split: task.splits)
qed

lemma activation_failed_stopped:
  assumes "manager_wf envs mgr" "initialize envs W mgr net_type vms = (Inl (ActivationFailed e), mgr', closed)"
  shows "hm_get (proxy_tasks mgr') vm_id \<noteq> Some (Forwarding p)"
proof -
  obtain plan r mgr1 where "\<not> initialized mgr"
    and fin: "finish_initialization envs W (register_tasks mgr plan) = (r, mgr1)" and mgr': "mgr' = release_tasks envs mgr1"
    using assms(2) unfolding initialize_def
    by (auto simp: initialize_begin_def split: prod.split_asm sum.split_asm if_split_asm)
  note fresh = manager_wf_uninitialized[OF assms(1) this(1)]
  have wait: "waiting t" if "hm_get (proxy_tasks (register_tasks mgr plan)) vm_id = Some t" for vm_id t
    using that fresh by (simp add: register_tasks_eq awaiting_tasks waiting_def split: if_splits)
  obtain mgr2 where worker: "initialization_worker envs W plan (register_tasks mgr plan) = (r, mgr2)"
    and "proxy_tasks mgr1 = proxy_tasks mgr2"
    using fin by (auto simp: finish_initialization_def register_tasks_eq split: prod.splits)
  then have "waiting t" if "hm_get (proxy_tasks mgr1) vm_id = Some t" for t
    using worker_waiting[OF worker wait] that by simp
  then show ?thesis unfolding mgr' by (rule release_not_forwarding)
qed

section \<open>Reachable states\<close>

text \<open>
  The manager starts empty, or, with a VM on the command line, with that VM initialized; then it
  steps.
\<close>

inductive manager_reachable ::
  "(uuid \<Rightarrow> ('p, 'm, 'n, 'msg, 'z, 'c, 'rq, 'rs) env) \<Rightarrow> (('n, 'z, 'c, 'rq, 'rs) init_world \<Rightarrow> bool) \<Rightarrow>
   ('m, 'n, 'c) run_state \<Rightarrow> bool"
  for envs worlds where
  start: "manager_reachable envs worlds (Running (Manager_new user_name group_name control))"
| command_line: "worlds W \<Longrightarrow> initialize envs W (Manager_new user_name group_name control) net_type [config] = (Inr vs, mgr, closed) \<Longrightarrow>
    manager_reachable envs worlds (Running mgr)"
| step: "manager_reachable envs worlds s \<Longrightarrow> manager_step envs worlds s s' \<Longrightarrow> manager_reachable envs worlds s'"

definition state_ok ::
  "(uuid \<Rightarrow> ('p, 'm, 'n, 'msg, 'z, 'c, 'rq, 'rs) env) \<Rightarrow> ('m, 'n, 'c) run_state \<Rightarrow> bool" where
  "state_ok envs s =
     (case s of
        Running mgr \<Rightarrow> manager_wf envs mgr
      | Exited result mgr \<Rightarrow> manager_wf envs mgr \<or>
          (\<exists>e. result = Inl e) \<and> (\<forall>vm_id p. hm_get (proxy_tasks mgr) vm_id \<noteq> Some (Forwarding p)))"

lemma step_ok:
  assumes worlds: "\<And>W. worlds W \<Longrightarrow> good_world W" and s: "state_ok envs s" and step: "manager_step envs worlds s s'"
  shows "state_ok envs s'"
  using step s
proof (cases rule: manager_step.cases)
  case (task mgr vm_id proxy event)
  then have wf: "manager_wf envs mgr" using s by (simp add: state_ok_def)
  then have "proxy_wf (envs vm_id) proxy" using manager_wf_task(3)[OF wf task(3)] by (simp add: task_ok_def)
  then show ?thesis
    using update_task_wf[OF wf task(3) task_event_ok] task by (simp add: state_ok_def)
next
  case (panic mgr vm_id proxy)
  then show ?thesis
    using s update_task_wf[of envs mgr vm_id proxy "Finished (Inl TaskPanicked)"] by (simp add: state_ok_def task_ok_def)
next
  case (call_fatal mgr W now request e mgr' reply closed)
  then have wf: "manager_wf envs mgr" using s by (simp add: state_ok_def)
  obtain net_type vms mgr1 where "initialize envs W mgr net_type vms = (Inl (ActivationFailed e), mgr1, closed)"
    "mgr' = finish_control mgr1"
    using call_fatal(5)
    by (auto simp: dispatch_def split: Request.splits prod.splits sum.splits InitializationError.splits)
  then show ?thesis
    using activation_failed_stopped[OF wf] call_fatal by (simp add: state_ok_def finish_control_def)
qed (use s worlds in \<open>auto simp: state_ok_def intro: reap_task_wf finish_control_wf dispatch_wf\<close>)

lemma reachable_ok:
  assumes "\<And>W. worlds W \<Longrightarrow> good_world W" "manager_reachable envs worlds s"
  shows "state_ok envs s"
  using assms(2)
proof (induction rule: manager_reachable.induct)
  case (start control)
  then show ?case by (simp add: state_ok_def manager_new_wf)
next
  case (command_line W control net_type config vs mgr closed)
  then show ?case
    using initialize_wf[OF manager_new_wf assms(1)] by (fastforce simp: state_ok_def)
next
  case (step s s')
  then show ?case using step_ok[OF assms(1)] by blast
qed

section \<open>Lemmas: shutdown\<close>

text \<open>An interface has stopped, or vmnet refused; its callback is disconnected in any case.\<close>

definition host_stopped :: "'v vmnet_scheme \<Rightarrow> HostSide \<Rightarrow> bool" where
  "host_stopped vn host \<longleftrightarrow> finalized host \<or> (\<exists>e. vn_finalize vn = Inl e) \<and> \<not> callback_can_continue host"

lemma finish_proxy_stopped: "finish_proxy vn result p = (r, q) \<Longrightarrow> host_stopped vn (px_host q)"
  by (auto simp: finish_proxy_def Host_finalize_def Host_drop_def host_stopped_def Let_def
      split: sum.splits if_splits)

lemma drain_task_stopped: "drain_task env events now t = (r, Some p) \<Longrightarrow> host_stopped (env_vmnet env) (px_host p)"
  by (auto simp: drain_task_def dest: finish_proxy_stopped split: task.splits prod.splits)

definition holds_proxy :: "('m, 'n, 'c) task \<Rightarrow> bool" where
  "holds_proxy t = (case t of AwaitingStart _ \<Rightarrow> True | Forwarding _ \<Rightarrow> True | _ \<Rightarrow> False)"

lemma drain_task_proxy: "(\<exists>p. snd (drain_task env events now t) = Some p) \<longleftrightarrow> holds_proxy t"
  by (auto simp: drain_task_def holds_proxy_def split: task.splits prod.splits)

lemma join_all_stopped:
  "join_all envs events now result tasks mgr = (r, mgr', proxies) \<Longrightarrow>
   (\<forall>(vm_id, p) \<in> set proxies. host_stopped (env_vmnet (envs vm_id)) (px_host p)) \<and>
   fst ` set proxies = fst ` {x \<in> set tasks. holds_proxy (snd x)} \<and>
   initialization mgr' = initialization mgr \<and> control_running mgr' = control_running mgr \<and>
   calls_open mgr' = calls_open mgr \<and>
   set (proxy_handles mgr') \<subseteq> set (proxy_handles mgr) \<and>
   (\<forall>vm_id. hm_get (proxy_tasks mgr') vm_id =
      (if vm_id \<in> fst ` set tasks then None else hm_get (proxy_tasks mgr) vm_id))"
proof (induction envs events now result tasks mgr arbitrary: r mgr' proxies rule: join_all.induct)
  case (2 envs events now result vm_id t tasks mgr)
  obtain outcome dropped where d: "drain_task (envs vm_id) (events vm_id) (now vm_id) t = (outcome, dropped)"
    by (cases "drain_task (envs vm_id) (events vm_id) (now vm_id) t")
  obtain reaped mgr1 where reap: "reap_task mgr vm_id outcome = (reaped, mgr1)" by (cases "reap_task mgr vm_id outcome")
  obtain r2 proxies2 where rest: "join_all envs events now (and_then result (\<lambda>_. reaped)) tasks mgr1 = (r2, mgr', proxies2)"
    and ps: "proxies = (case dropped of None \<Rightarrow> [] | Some p \<Rightarrow> [(vm_id, p)]) @ proxies2"
    using 2(2) d reap by (auto simp: Let_def split: prod.splits)
  note IH = 2(1)[OF d[symmetric] refl reap[symmetric] refl rest]
  have keep: "mgr1 = mgr\<lparr>proxy_handles := removeAll vm_id (proxy_handles mgr), proxy_tasks := hm_remove vm_id (proxy_tasks mgr)\<rparr>"
    using reap by (simp add: reap_task_def)
  have "(\<exists>p. dropped = Some p) \<longleftrightarrow> holds_proxy t"
    using drain_task_proxy[of "envs vm_id" "events vm_id" "now vm_id" t] d by simp
  then have "fst ` set proxies = fst ` {x \<in> set ((vm_id, t) # tasks). holds_proxy (snd x)}"
    using IH ps by (auto simp: image_iff split: option.splits)
  moreover have "\<forall>(i, p) \<in> set proxies. host_stopped (env_vmnet (envs i)) (px_host p)"
    using IH ps drain_task_stopped d by (auto split: option.splits)
  moreover have "hm_get (proxy_tasks mgr') i =
      (if i \<in> fst ` set ((vm_id, t) # tasks) then None else hm_get (proxy_tasks mgr) i)" for i
    using IH by (simp add: keep)
  moreover have "initialization mgr' = initialization mgr" "control_running mgr' = control_running mgr"
    "calls_open mgr' = calls_open mgr"
    using IH by (simp_all add: keep)
  moreover have "set (proxy_handles mgr') \<subseteq> set (proxy_handles mgr)"
    using IH by (auto simp: keep)
  ultimately show ?case by blast
qed simp

lemma run_proxy_exits: "\<exists>x q out. run_proxy env p (events @ [CommandReceived None now]) = (Some x, q, out)"
proof (induction events arbitrary: p)
  case Nil
  show ?case by (simp add: select_branch_def on_command_def)
next
  case (Cons event events)
  obtain e q out where sb: "select_branch env p event = (e, q, out)" by (cases "select_branch env p event")
  obtain x q' out' where "run_proxy env q (events @ [CommandReceived None now]) = (Some x, q', out')"
    using Cons.IH by blast
  then show ?case using sb by (cases e) auto
qed

lemma finish_initialization_none:
  assumes "finish_initialization envs W mgr = (r, mgr')"
  shows "initialization mgr' = None" "control_running mgr' = control_running mgr" "calls_open mgr' = calls_open mgr"
    "proxy_handles mgr' = proxy_handles mgr"
  using assms
  by (auto simp: finish_initialization_def initialization_worker_def Let_def split: option.splits prod.splits sum.splits)

lemma shutdown_stops:
  assumes "shutdown envs W events now mgr = (result, mgr', proxies)"
  shows "proxy_tasks mgr' = []" "proxy_handles mgr' = []" "initialization mgr' = None"
    "\<not> control_running mgr'" "\<not> calls_open mgr'"
    "list_all (\<lambda>(vm_id, p). host_stopped (env_vmnet (envs vm_id)) (px_host p)) proxies"
    "fst ` set proxies = fst ` {x \<in> set (proxy_tasks (snd (finish_initialization envs W
      ((finish_control mgr)\<lparr>proxy_handles := []\<rparr>)))). holds_proxy (snd x)}"
proof -
  obtain r mgr1 where fin: "finish_initialization envs W ((finish_control mgr)\<lparr>proxy_handles := []\<rparr>) = (r, mgr1)"
    by (cases "finish_initialization envs W ((finish_control mgr)\<lparr>proxy_handles := []\<rparr>)")
  then have "join_all envs events now r (proxy_tasks mgr1) mgr1 = (result, mgr', proxies)"
    using assms by (simp add: shutdown_def Let_def)
  note join = join_all_stopped[OF this] and none = finish_initialization_none[OF fin]
  have "hm_get (proxy_tasks mgr') vm_id = None" for vm_id
    using join by (simp add: hm_get_def map_of_eq_None_iff)
  then show "proxy_tasks mgr' = []" by (rule hm_get_all_None)
  show "proxy_handles mgr' = []" "initialization mgr' = None" "\<not> control_running mgr'" "\<not> calls_open mgr'"
    "list_all (\<lambda>(vm_id, p). host_stopped (env_vmnet (envs vm_id)) (px_host p)) proxies"
    "fst ` set proxies = fst ` {x \<in> set (proxy_tasks (snd (finish_initialization envs W
      ((finish_control mgr)\<lparr>proxy_handles := []\<rparr>)))). holds_proxy (snd x)}"
    using join none fin by (simp_all add: list_all_iff finish_control_def)
qed

section \<open>A concrete system\<close>

definition sample_world where
  "sample_world =
     \<lparr>w_subnet = ref_subnet, w_rng = ref_rng, w_interfaces = Some sample_interfaces, w_ids = (\<lambda>i. of_nat (Suc i)),
      w_dns = ref_dns, w_config = (\<lambda>_ _. None), w_now = (\<lambda>_. 0), w_privdrop = (\<lambda>_ _. True)\<rparr>"

definition sample_vm :: "int \<Rightarrow> u8 \<Rightarrow> string VmConfig" where
  "sample_vm fd n =
     \<lparr>vm_fd = fd, cfg_mac_address = [2, 0, 0, 0, 0, n], cfg_name = None, cfg_allow = [dns_only], cfg_block = [block_all],
      exposed_ports = []\<rparr>"

lemma sample_good: "good_world sample_world"
proof -
  have "distinct (map (w_ids sample_world) [0..<MAX_VMS])" by code_simp
  then have "inj_on (w_ids sample_world) {..<MAX_VMS}" unfolding distinct_map by (simp add: lessThan_atLeast0)
  then show ?thesis
    using ref_subnet_api.subnet_api_axioms ref_rng_api.rng_api_axioms by (simp add: good_world_def sample_world_def)
qed

definition sample_start where
  "sample_start = Manager_new ''nobody'' ''nobody'' True"

lemma sample_start_wf: "manager_wf envs sample_start"
  unfolding sample_start_def by (rule manager_new_wf)

definition sample_init where
  "sample_init vms = initialize (\<lambda>_. sample_env) sample_world sample_start NetNat vms"

definition sample_manager where
  "sample_manager = fst (snd (sample_init [sample_vm 3 9]))"

lemma sample_manager_eval:
  "case sample_init [sample_vm 3 9] of (result, mgr, _) \<Rightarrow>
     (case result of Inr _ \<Rightarrow> True | Inl _ \<Rightarrow> False) \<and> proxy_handles mgr = [1] \<and> default_vm_id mgr = Some 1 \<and>
     (case hm_get (proxy_tasks mgr) 1 of Some (Forwarding _) \<Rightarrow> True | _ \<Rightarrow> False)"
  by code_simp

lemma sample_manager_init:
  "\<exists>vs closed. initialize (\<lambda>_. sample_env) sample_world sample_start NetNat [sample_vm 3 9] =
     (Inr vs, sample_manager, closed)"
proof -
  obtain result mgr closed where i: "sample_init [sample_vm 3 9] = (result, mgr, closed)" by (rule prod_cases3)
  have "case result of Inr _ \<Rightarrow> True | Inl _ \<Rightarrow> False" using sample_manager_eval unfolding i by simp
  then obtain vs where "result = Inr vs" by (auto split: sum.splits)
  then show ?thesis using i unfolding sample_manager_def i sample_init_def by simp
qed

lemma sample_manager_task: "\<exists>p. hm_get (proxy_tasks sample_manager) 1 = Some (Forwarding p)"
proof -
  have "case hm_get (proxy_tasks sample_manager) 1 of Some (Forwarding _) \<Rightarrow> True | _ \<Rightarrow> False"
    using sample_manager_eval by (auto simp: sample_manager_def)
  then show ?thesis by (auto split: option.splits task.splits)
qed

lemma sample_manager_handle:
  "proxy_handle sample_manager None = Inr 1" "proxy_handles sample_manager = [1]"
proof -
  have "proxy_handles sample_manager = [1]" "default_vm_id sample_manager = Some 1"
    using sample_manager_eval by (auto simp: sample_manager_def)
  then show "proxy_handle sample_manager None = Inr 1" "proxy_handles sample_manager = [1]"
    by (simp_all add: proxy_handle_def)
qed

lemma sample_manager_wf: "manager_wf (\<lambda>_. sample_env) sample_manager"
  using sample_manager_init initialize_wf[OF sample_start_wf sample_good] by fastforce

lemma sample_manager_reachable:
  "manager_reachable (\<lambda>_. sample_env) (\<lambda>W. W = sample_world) (Running sample_manager)"
proof -
  obtain vs closed where
    "initialize (\<lambda>_. sample_env) sample_world sample_start NetNat [sample_vm 3 9] = (Inr vs, sample_manager, closed)"
    using sample_manager_init by blast
  then show ?thesis
    unfolding sample_start_def by (rule manager_reachable.command_line[where worlds = "\<lambda>W. W = sample_world", OF refl])
qed

section \<open>Properties\<close>

text \<open>
  C8: a successful initialization activates the whole batch. The reply lists the VMs in request
  order with fresh identifiers; every VM has its own MAC address, none the DHCP server's, and its
  own address of the chosen subnet, none the gateway's; the network was configured with exactly
  these reservations and the requested port forwardings; every VM's proxy forwards with the
  configured identity and policy and knows the others as its peers; and privileges are dropped.
\<close>

theorem initialize_batch:
  assumes "good_world W" and "manager_wf envs mgr"
    and "initialize envs W mgr net_type vms = (Inr vs, mgr', closed)"
  shows "closed = [] \<and> vs = map (\<lambda>i. (w_ids W i, cfg_mac_address (vms ! i))) [0..<length vms] \<and>
    DHCP_SERVER_MAC \<notin> cfg_mac_address ` set vms \<and> distinct (map cfg_mac_address vms) \<and>
    (\<exists>subnet gateway ips dns. length ips = length vms \<and> distinct (gateway # ips) \<and>
      list_all (in_net subnet) (gateway # ips) \<and>
      batch_active envs W net_type vms subnet gateway ips dns mgr')"
proof -
  have "\<not> initialized mgr"
    using assms(3) by (auto simp: initialize_def initialize_begin_def split: if_splits)
  from initialize_active[OF good_worldD[OF assms(1)] good_world_ids[OF assms(1,3)]
      manager_wf_uninitialized[OF assms(2) this] assms(3)]
  show ?thesis unfolding list_all_iff by blast
qed

theorem initialize_batch_witness:
  "\<exists>mgr'. initialize (\<lambda>_. sample_env) sample_world sample_start NetNat [sample_vm 3 9, sample_vm 5 10] =
     (Inr [(1, [2, 0, 0, 0, 0, 9]), (2, [2, 0, 0, 0, 0, 10])], mgr', []) \<and> \<not> privileged mgr'"
proof -
  let ?vms = "[sample_vm 3 9, sample_vm 5 10]"
  have "case fst (sample_init ?vms) of Inr _ \<Rightarrow> True | Inl _ \<Rightarrow> False" by code_simp
  then obtain vs mgr' closed where
    i: "initialize (\<lambda>_. sample_env) sample_world sample_start NetNat ?vms = (Inr vs, mgr', closed)"
    unfolding sample_init_def by (metis prod.collapse sum.case_eq_if sum.collapse(2))
  have "map (\<lambda>i. (w_ids sample_world i, cfg_mac_address (?vms ! i))) [0..<length ?vms] =
      [(1, [2, 0, 0, 0, 0, 9]), (2, [2, 0, 0, 0, 0, 10])]" by code_simp
  with initialize_batch[OF sample_good sample_start_wf i] i show ?thesis
    by (auto dest: batch_active_fields(2))
qed



text \<open>
  C16: in every reachable state of the running manager the handles are those of the unjoined VM
  tasks, every forwarding task has a consistent proxy, and no two of them share an address.
\<close>

theorem manager_invariant:
  assumes "\<And>W. worlds W \<Longrightarrow> good_world W" and "manager_reachable envs worlds (Running mgr)"
  shows "manager_wf envs mgr"
  using reachable_ok[OF assms] by (simp add: state_ok_def)

theorem manager_invariant_witness:
  "manager_wf (\<lambda>_. sample_env) sample_manager \<and> proxy_tasks sample_manager \<noteq> []"
proof -
  have "proxy_tasks sample_manager \<noteq> []" using sample_manager_task by auto
  then show ?thesis using manager_invariant[OF _ sample_manager_reachable] sample_good by simp
qed

text \<open>
  C9: no packet is forwarded with root privileges. Whenever a VM task forwards, whether the manager
  is running or its run has ended, initialization has completed and privileges have been dropped.
\<close>

theorem forwarding_unprivileged:
  assumes "\<And>W. worlds W \<Longrightarrow> good_world W" and "manager_reachable envs worlds s"
    and "s = Running mgr \<or> s = Exited result mgr"
    and "hm_get (proxy_tasks mgr) vm_id = Some (Forwarding p)"
  shows "\<not> privileged mgr \<and> initialized mgr"
  using reachable_ok[OF assms(1,2)] assms(3,4) manager_wf_task(1,2)[of envs mgr vm_id]
  by (auto simp: state_ok_def)

theorem forwarding_unprivileged_witness:
  "\<exists>p. hm_get (proxy_tasks sample_manager) 1 = Some (Forwarding p) \<and> \<not> privileged sample_manager"
proof -
  obtain p where p: "hm_get (proxy_tasks sample_manager) 1 = Some (Forwarding p)" using sample_manager_task by blast
  then show ?thesis
    using forwarding_unprivileged[OF _ sample_manager_reachable disjI1[OF refl] p] sample_good by simp
qed

text \<open>
  C15: a policy change reaches the VM it names and no other. An unknown target, or none where the
  batch has several VMs, is refused without effect; otherwise the target's proxy gets the policy
  and its answer is the reply, a stopped VM is reported as such, and every other VM's task is
  untouched.
\<close>

theorem policy_change_isolated:
  assumes "manager_wf envs mgr"
    and "dispatch envs W now mgr (SetPolicy target allow block) = (r, mgr', reply, closed)"
  shows "r = Inr () \<and> closed = [] \<and>
    (case proxy_handle mgr target of
       Inl e \<Rightarrow> mgr' = mgr \<and> reply = Inl (CallInvalidParams e)
     | Inr vm_id \<Rightarrow>
         (case hm_get (proxy_tasks mgr) vm_id of
            Some (Forwarding p) \<Rightarrow>
              mgr' = mgr\<lparr>proxy_tasks := hm_insert vm_id (Forwarding (snd (policy_set (envs vm_id) p allow block now)))
                (proxy_tasks mgr)\<rparr> \<and>
              reply = Inr (PolicyReply (fst (policy_set (envs vm_id) p allow block now)))
          | _ \<Rightarrow> mgr' = mgr \<and> reply = Inl (CallFailed CommandNotAccepted)) \<and>
         list_all (\<lambda>other. other = vm_id \<or> hm_get (proxy_tasks mgr') other = hm_get (proxy_tasks mgr) other)
           (proxy_handles mgr))"
proof (cases "proxy_handle mgr target")
  case (Inl e)
  then show ?thesis using assms(2) by (simp add: dispatch_def)
next
  case (Inr vm_id)
  then have "vm_id \<in> set (proxy_handles mgr)"
    by (auto simp: proxy_handle_def result_iffs split: if_splits)
  then obtain t where t: "hm_get (proxy_tasks mgr) vm_id = Some t" using assms(1) by (auto simp: manager_wf_def)
  show ?thesis
  proof (cases t)
    case (Forwarding p)
    obtain pol q where "policy_set (envs vm_id) p allow block now = (pol, q)"
      by (cases "policy_set (envs vm_id) p allow block now")
    then show ?thesis
      using assms(2) Inr t Forwarding
      by (auto simp: dispatch_def proxy_request_def on_command_def ok_or_def and_then_def map_err_def list_all_iff split: if_splits)
  next
    case (Finished res)
    then show ?thesis
      using assms(2) Inr t
      by (auto simp: dispatch_def proxy_request_def and_then_def map_err_def list_all_iff)
  qed (use manager_wf_task(3)[OF assms(1) t] in \<open>simp_all add: task_ok_def\<close>)
qed

theorem policy_change_isolated_witness:
  "\<exists>mgr' policy. dispatch (\<lambda>_. sample_env) sample_world 7 sample_manager (SetPolicy None [] [block_all]) =
     (Inr (), mgr', Inr (PolicyReply policy), [])"
proof -
  obtain p where p: "hm_get (proxy_tasks sample_manager) 1 = Some (Forwarding p)" using sample_manager_task by blast
  note target = sample_manager_handle(1) p
  obtain r mgr' reply closed where
    d: "dispatch (\<lambda>_. sample_env) sample_world 7 sample_manager (SetPolicy None [] [block_all]) = (r, mgr', reply, closed)"
    by (rule prod_cases4)
  from policy_change_isolated[OF sample_manager_wf d] have "r = Inr ()" "closed = []"
    "reply = Inr (PolicyReply (fst (policy_set sample_env p [] [block_all] 7)))"
    by (simp_all only: target sum.case option.case task.case)
  then show ?thesis using d by blast
qed



end
