(* ===== verification/Control_Transport.thy ===== *)
theory Control_Transport
  imports Network Vm
begin

text \<open>
  The framing of the control socket (\<open>lib/control_transport.rs\<close>): newline-terminated frames with
  descriptors attached to their first bytes. What the socket delivers is a list of receive results;
  Tokio's \<open>LinesCodec\<close> is a parameter. A definition that owns descriptors returns those it closed.
\<close>

section \<open>Interfaces of the crates\<close>

definition newline :: u8 where
  "newline = 10"

definition carriage_return :: u8 where
  "carriage_return = 13"

text \<open>A decoder: its initial state, and decoding from a buffer, which returns what is left of it.\<close>

record 'k lines_codec =
  codec_new :: 'k
  codec_decode :: "'k \<Rightarrow> bytes \<Rightarrow> (unit + string option) \<times> 'k \<times> bytes"

record control_os = os +
  os_SOCK_STREAM :: int
  os_write_all :: "int \<Rightarrow> bytes \<Rightarrow> io_error option \<times> nat"

text \<open>One \<open>recvmsg\<close>: an error, or the bytes with the descriptors that came with them.\<close>

type_synonym chunk = "bytes \<times> int list"

type_synonym recv_result = "io_error + chunk"

section \<open>The transport\<close>

definition READ_BUFFER_BYTES :: nat where
  "READ_BUFFER_BYTES = 4096"

definition MAX_REQUEST_BYTES :: nat where
  "MAX_REQUEST_BYTES = 1024 * 1024"

definition MAX_FRAME_FDS :: nat where
  "MAX_FRAME_FDS = MAX_VMS"

record ControlTransport =
  ct_socket :: int
  buffered :: bytes

datatype frame_error = FrameTooLarge | DescriptorsMidFrame | TooManyDescriptors | InvalidUtf8

record Frame =
  frame_line :: "frame_error + string"
  frame_fds :: "int list"

datatype transport_error =
    NotASocketFd io_error
  | NotAStreamSocket
  | NotConnectedSocket io_error
  | TransportIo io_error

definition ControlTransport_new ::
  "'z control_os_scheme \<Rightarrow> int \<Rightarrow> (transport_error + ControlTransport) \<times> int list" where
  "ControlTransport_new os control_fd =
     (case and_then (map_err NotASocketFd (os_socket_type os control_fd)) (\<lambda>socket_type.
             if socket_type \<noteq> os_SOCK_STREAM os then Inl NotAStreamSocket
             else and_then (map_err NotConnectedSocket (os_peer_addr os control_fd)) (\<lambda>_.
               and_then (map_err TransportIo (os_set_nonblocking os control_fd)) (\<lambda>_.
                 and_then (map_err TransportIo (os_register os control_fd)) (\<lambda>_.
                   Inr \<lparr>ct_socket = control_fd, buffered = []\<rparr>)))) of
        Inl e \<Rightarrow> (Inl e, [control_fd])
      | Inr ct \<Rightarrow> (Inr ct, []))"

section \<open>Reading a frame\<close>

text \<open>The local variables of \<open>next\<close>.\<close>

record 'k next_state =
  nx_input :: bytes
  nx_fds :: "int list"
  nx_error :: "frame_error option"
  nx_codec :: 'k

definition get_or_insert :: "'a option \<Rightarrow> 'a \<Rightarrow> 'a option" where
  "get_or_insert v a = (case v of None \<Rightarrow> Some a | Some b \<Rightarrow> Some b)"

text \<open>
  The part of the loop before the receive: decode, check the size, and return the frame or, once an
  error is recorded, discard what was read. The last component is the closed descriptors.
\<close>

definition next_decode ::
  "'k lines_codec \<Rightarrow> 'k next_state \<Rightarrow> Frame option \<times> 'k next_state \<times> int list" where
  "next_decode C st =
     (let buffered_length = length (nx_input st);
          (line, codec, input) = codec_decode C (nx_codec st) (nx_input st);
          complete = (line \<noteq> Inr None);
          len = (if complete then buffered_length - length input - 1 else length input);
          frame_error = (if len > MAX_REQUEST_BYTES then get_or_insert (nx_error st) FrameTooLarge else nx_error st);
          st = st\<lparr>nx_input := input, nx_codec := codec, nx_error := frame_error\<rparr>
      in if complete
         then (let line = (case frame_error of
                             Some e \<Rightarrow> Inl e
                           | None \<Rightarrow> (case line of Inr (Some s) \<Rightarrow> Inr s | _ \<Rightarrow> Inl InvalidUtf8))
               in (case line of
                     Inl _ \<Rightarrow> (Some \<lparr>frame_line = line, frame_fds = []\<rparr>, st\<lparr>nx_fds := []\<rparr>, nx_fds st)
                   | Inr _ \<Rightarrow> (Some \<lparr>frame_line = line, frame_fds = nx_fds st\<rparr>, st\<lparr>nx_fds := []\<rparr>, [])))
         else if frame_error \<noteq> None
         then (None, st\<lparr>nx_input := [], nx_fds := [], nx_codec := codec_new C\<rparr>, nx_fds st)
         else (None, st, []))"

text \<open>The part after it: where descriptors are accepted, and accumulating what was received.\<close>

definition next_receive :: "'k next_state \<Rightarrow> chunk \<Rightarrow> 'k next_state" where
  "next_receive st c =
     (case c of (received, received_fds) \<Rightarrow>
        let frame_error =
              (if received_fds = [] then nx_error st
               else if nx_input st \<noteq> [] \<or> nx_error st \<noteq> None
               then get_or_insert (nx_error st) DescriptorsMidFrame
               else if length received_fds > MAX_FRAME_FDS then get_or_insert (nx_error st) TooManyDescriptors
               else nx_error st)
        in st\<lparr>nx_error := frame_error, nx_fds := nx_fds st @ received_fds, nx_input := nx_input st @ received\<rparr>)"

text \<open>
  How a call of \<open>next\<close> ends: with a frame, the rest of its buffer and the receive results it has not
  used; at the end of the stream; with an error; or still waiting when the receive results are
  exhausted, where dropping the future drops what it has read.
\<close>

datatype next_result =
    NextFrame Frame bytes "recv_result list"
  | NextEnd "recv_result list"
  | NextFailed io_error "recv_result list"
  | NextPending

fun next_loop ::
  "'k lines_codec \<Rightarrow> 'k next_state \<Rightarrow> recv_result list \<Rightarrow> next_result \<times> int list" where
  "next_loop C st [] =
     (case next_decode C st of
        (Some frame, st, closed) \<Rightarrow> (NextFrame frame (nx_input st) [], closed)
      | (None, st, closed) \<Rightarrow> (NextPending, closed @ nx_fds st))"
| "next_loop C st (r # recvs) =
     (case next_decode C st of
        (Some frame, st, closed) \<Rightarrow> (NextFrame frame (nx_input st) (r # recvs), closed)
      | (None, st, closed) \<Rightarrow>
          (case r of
             Inl e \<Rightarrow> (NextFailed e recvs, closed @ nx_fds st)
           | Inr (received, received_fds) \<Rightarrow>
               if received = [] then (NextEnd recvs, closed @ nx_fds st @ received_fds)
               else (let (result, closed') = next_loop C (next_receive st (received, received_fds)) recvs
                     in (result, closed @ closed'))))"

definition transport_next ::
  "'k lines_codec \<Rightarrow> ControlTransport \<Rightarrow> recv_result list \<Rightarrow> next_result \<times> ControlTransport \<times> int list" where
  "transport_next C ct recvs =
     (case next_loop C \<lparr>nx_input = buffered ct, nx_fds = [], nx_error = None, nx_codec = codec_new C\<rparr> recvs of
        (result, closed) \<Rightarrow>
          (result, ct\<lparr>buffered := (case result of NextFrame _ rest _ \<Rightarrow> rest | _ \<Rightarrow> [])\<rparr>, closed))"

section \<open>Sending\<close>

text \<open>The result with the bytes that have been written.\<close>

definition transport_send ::
  "'z control_os_scheme \<Rightarrow> ControlTransport \<Rightarrow> bytes \<Rightarrow> (io_error + unit) \<times> bytes" where
  "transport_send os ct msg =
     (case os_write_all os (ct_socket ct) msg of
        (Some e, n) \<Rightarrow> (Inl e, take n msg)
      | (None, _) \<Rightarrow>
          (case os_write_all os (ct_socket ct) [newline] of
             (Some e, n) \<Rightarrow> (Inl e, msg @ take n [newline])
           | (None, _) \<Rightarrow> (Inr (), msg @ [newline])))"

section \<open>What is promised of the decoder\<close>

definition strip_cr :: "bytes \<Rightarrow> bytes" where
  "strip_cr line = (if line \<noteq> [] \<and> last line = carriage_return then butlast line else line)"

text \<open>
  The documented behaviour of \<open>LinesCodec\<close> without a length limit. Its state fits a buffer whose
  searched part has no newline; a fresh one fits every buffer. Without a newline it asks for more
  and leaves the buffer; otherwise it takes the first line with its newline, strips a carriage
  return, and gives the text or fails when the line is not UTF-8.
\<close>

locale lines_codec_api =
  fixes C :: "'k lines_codec" and fits :: "'k \<Rightarrow> bytes \<Rightarrow> bool" and utf8 :: "bytes \<Rightarrow> string option"
  assumes fits_new: "fits (codec_new C) buf"
    and decode_partial: "fits k buf \<Longrightarrow> newline \<notin> set buf \<Longrightarrow>
      \<exists>k'. codec_decode C k buf = (Inr None, k', buf) \<and> (\<forall>received. fits k' (buf @ received))"
    and decode_line: "fits k (line @ newline # rest) \<Longrightarrow> newline \<notin> set line \<Longrightarrow>
      \<exists>k'. codec_decode C k (line @ newline # rest) =
        (case utf8 (strip_cr line) of Some s \<Rightarrow> Inr (Some s) | None \<Rightarrow> Inl (), k', rest)"

section \<open>What a call returns\<close>

definition stream_of :: "bytes \<Rightarrow> chunk list \<Rightarrow> bytes" where
  "stream_of b chunks = b @ concat (map fst chunks)"

definition fds_of :: "chunk list \<Rightarrow> int list" where
  "fds_of chunks = concat (map snd chunks)"

text \<open>The chunks a call has to receive until its first newline, and those it leaves.\<close>

fun frame_chunks :: "bytes \<Rightarrow> chunk list \<Rightarrow> (chunk list \<times> chunk list) option" where
  "frame_chunks b [] = (if newline \<in> set b then Some ([], []) else None)"
| "frame_chunks b (c # cs) =
     (if newline \<in> set b then Some ([], c # cs)
      else map_option (\<lambda>(used, rest). (c # used, rest)) (frame_chunks (b @ fst c) cs))"

definition first_line :: "bytes \<Rightarrow> bytes" where
  "first_line bs = takeWhile (\<lambda>x. x \<noteq> newline) bs"

definition after_line :: "bytes \<Rightarrow> bytes" where
  "after_line bs = tl (dropWhile (\<lambda>x. x \<noteq> newline) bs)"

text \<open>Descriptors come with the first bytes of a frame, at most five of them.\<close>

definition fds_accepted :: "bytes \<Rightarrow> chunk list \<Rightarrow> bool" where
  "fds_accepted b used =
     (case used of
        [] \<Rightarrow> True
      | c # cs \<Rightarrow> (snd c = [] \<or> b = [] \<and> length (snd c) \<le> MAX_FRAME_FDS) \<and> fds_of cs = [])"

definition accepted_line :: "(bytes \<Rightarrow> string option) \<Rightarrow> bytes \<Rightarrow> chunk list \<Rightarrow> string option" where
  "accepted_line utf8 b used =
     (let line = first_line (stream_of b used)
      in if length line \<le> MAX_REQUEST_BYTES \<and> fds_accepted b used then utf8 (strip_cr line) else None)"

text \<open>Receive results that bring no data: none, an error or the end of the stream.\<close>

definition no_data :: "recv_result list \<Rightarrow> bool" where
  "no_data recvs = (case recvs of Inr (received, _) # _ \<Rightarrow> received = [] | _ \<Rightarrow> True)"

definition end_result :: "recv_result list \<Rightarrow> next_result \<times> int list" where
  "end_result recvs =
     (case recvs of
        [] \<Rightarrow> (NextPending, [])
      | Inl e # recvs \<Rightarrow> (NextFailed e recvs, [])
      | Inr (_, fds) # recvs \<Rightarrow> (NextEnd recvs, fds))"

text \<open>A frame read from the used chunks: its line, or its rejection with all its descriptors closed.\<close>

definition frame_outcome ::
  "(bytes \<Rightarrow> string option) \<Rightarrow> bytes \<Rightarrow> int list \<Rightarrow> chunk list \<Rightarrow> recv_result list \<Rightarrow> frame_error \<Rightarrow>
   next_result \<times> int list" where
  "frame_outcome utf8 b fds used recvs e =
     (let rest = after_line (stream_of b used)
      in (case accepted_line utf8 b used of
            Some s \<Rightarrow> (NextFrame \<lparr>frame_line = Inr s, frame_fds = fds @ fds_of used\<rparr> rest recvs, [])
          | None \<Rightarrow> (NextFrame \<lparr>frame_line = Inl e, frame_fds = []\<rparr> rest recvs, fds @ fds_of used)))"

lemma fds_of_simps [simp]: "fds_of [] = []" "fds_of (c # cs) = snd c @ fds_of cs"
  by (simp_all add: fds_of_def)

lemma stream_of_simps [simp]: "stream_of b [] = b" "stream_of b (c # cs) = stream_of (b @ fst c) cs"
  by (simp_all add: stream_of_def)

lemma line_prefix:
  assumes "newline \<notin> set b"
  shows "first_line (b @ bs) = b @ first_line bs" "after_line (b @ bs) = after_line bs"
  using assms by (induction b) (auto simp: first_line_def after_line_def)

lemma line_newline [simp]: "first_line (newline # bs) = []" "after_line (newline # bs) = bs"
  by (simp_all add: first_line_def after_line_def)

lemma split_line:
  assumes "newline \<in> set bs"
  shows "bs = first_line bs @ newline # after_line bs" "newline \<notin> set (first_line bs)"
proof -
  from split_list_first[OF assms] obtain l r where "bs = l @ newline # r" "newline \<notin> set l" by blast
  then have "first_line bs = l" "after_line bs = r"
    by (simp_all add: line_prefix)
  then show "bs = first_line bs @ newline # after_line bs" "newline \<notin> set (first_line bs)"
    using \<open>bs = l @ newline # r\<close> \<open>newline \<notin> set l\<close> by simp_all
qed

lemma stream_of_prefix: "stream_of (b @ x) cs = b @ stream_of x cs"
  by (simp add: stream_of_def)

lemma split_line_append:
  assumes "newline \<in> set bs" and "newline \<notin> set m" and "bs @ xs = m @ newline # rest"
  shows "first_line bs = m" "after_line bs @ xs = rest"
proof -
  have "first_line bs @ newline # after_line bs @ xs = m @ newline # rest"
    using split_line(1)[OF assms(1)] assms(3) by (metis append_Cons append_assoc)
  note this[THEN arg_cong, of first_line] this[THEN arg_cong, of after_line]
  then show "first_line bs = m" "after_line bs @ xs = rest"
    using assms(2) split_line(2)[OF assms(1)] by (simp_all add: line_prefix)
qed

lemma frame_chunks_prefix: "newline \<notin> set b \<Longrightarrow> frame_chunks (b @ x) cs = frame_chunks x cs"
  by (induction cs arbitrary: x) simp_all

lemma frame_chunks_Some:
  "frame_chunks b cs = Some (used, rest) \<Longrightarrow> cs = used @ rest \<and> newline \<in> set (stream_of b used)"
  by (induction b cs arbitrary: used rest rule: frame_chunks.induct) (auto split: if_splits)

text \<open>When descriptors are in the right place, they belong to the first frame.\<close>

lemma fds_accepted_frame:
  assumes "frame_chunks b cs = Some (used, rest)" and "fds_accepted b cs"
  shows "fds_accepted b used \<and> fds_of rest = [] \<and> fds_of used = fds_of cs"
proof (cases used)
  case Nil
  then have "rest = cs" "b \<noteq> []" using frame_chunks_Some[OF assms(1)] by auto
  then show ?thesis using Nil assms(2) by (auto simp: fds_accepted_def split: list.splits)
next
  case (Cons c used')
  then have "cs = c # used' @ rest" using frame_chunks_Some[OF assms(1)] by simp
  then show ?thesis using Cons assms(2) by (auto simp: fds_accepted_def fds_of_def)
qed

lemma fds_accepted_nonempty: "b \<noteq> [] \<Longrightarrow> fds_accepted b used \<longleftrightarrow> fds_of used = []"
  by (simp add: fds_accepted_def split: list.splits)

text \<open>The loop, by what decoding returns.\<close>

lemma next_loop_frame:
  "next_decode C st = (Some frame, st', closed) \<Longrightarrow> next_loop C st recvs = (NextFrame frame (nx_input st') recvs, closed)"
  by (cases recvs) simp_all

lemma next_loop_end:
  "next_decode C st = (None, st', closed) \<Longrightarrow> no_data recvs \<Longrightarrow>
   next_loop C st recvs = (fst (end_result recvs), closed @ nx_fds st' @ snd (end_result recvs))"
  by (cases recvs) (auto simp: end_result_def no_data_def split: sum.splits)

lemma next_loop_data:
  "next_decode C st = (None, st', closed) \<Longrightarrow> fst c \<noteq> [] \<Longrightarrow>
   next_loop C st (Inr c # recvs) = apsnd (\<lambda>closed'. closed @ closed') (next_loop C (next_receive st' c) recvs)"
  by (cases c) (simp add: apsnd_def split: prod.splits)

lemma next_receive_fields [simp]:
  "nx_input (next_receive st c) = nx_input st @ fst c" "nx_fds (next_receive st c) = nx_fds st @ snd c"
  "nx_codec (next_receive st c) = nx_codec st" "nx_error st = Some e \<Longrightarrow> nx_error (next_receive st c) = Some e"
  by (cases c; simp add: next_receive_def Let_def get_or_insert_def)+

lemma next_receive_error:
  "nx_error st = None \<Longrightarrow> nx_error (next_receive st c) = None \<longleftrightarrow> fds_accepted (nx_input st) [c]"
  by (cases c) (auto simp: next_receive_def Let_def get_or_insert_def fds_accepted_def not_le)

context lines_codec_api
begin

text \<open>Decoding when the buffer has a line, and when it has not.\<close>

lemma decode_complete:
  assumes "fits (nx_codec st) (nx_input st)" and "newline \<in> set (nx_input st)"
  shows "\<exists>st' e. next_decode C st =
    (case nx_error st of
       Some e \<Rightarrow> (Some \<lparr>frame_line = Inl e, frame_fds = []\<rparr>, st', nx_fds st)
     | None \<Rightarrow>
         (case if length (first_line (nx_input st)) \<le> MAX_REQUEST_BYTES
               then utf8 (strip_cr (first_line (nx_input st))) else None of
            Some s \<Rightarrow> (Some \<lparr>frame_line = Inr s, frame_fds = nx_fds st\<rparr>, st', [])
          | None \<Rightarrow> (Some \<lparr>frame_line = Inl e, frame_fds = []\<rparr>, st', nx_fds st))) \<and>
    nx_input st' = after_line (nx_input st)"
proof -
  let ?l = "first_line (nx_input st)" and ?r = "after_line (nx_input st)"
  note split = split_line[OF assms(2)]
  have "fits (nx_codec st) (?l @ newline # ?r)" using assms(1) split(1) by simp
  from decode_line[OF this split(2)] obtain k' where
    d: "codec_decode C (nx_codec st) (nx_input st) = (case utf8 (strip_cr ?l) of Some s \<Rightarrow> Inr (Some s) | None \<Rightarrow> Inl (), k', ?r)"
    using split(1) by metis
  have "length (nx_input st) = Suc (length ?l + length ?r)" using arg_cong[OF split(1), of length] by simp
  then have "length (nx_input st) - length ?r - 1 = length ?l" by simp
  then show ?thesis
    by (cases "nx_error st"; cases "utf8 (strip_cr ?l)"; cases "length ?l \<le> MAX_REQUEST_BYTES")
      (auto simp: next_decode_def Let_def d get_or_insert_def not_le)
qed

lemma decode_incomplete:
  assumes "fits (nx_codec st) (nx_input st)" and "newline \<notin> set (nx_input st)"
  shows "\<exists>st'. if nx_error st = None \<and> length (nx_input st) \<le> MAX_REQUEST_BYTES
    then next_decode C st = (None, st', []) \<and> nx_error st' = None \<and> nx_fds st' = nx_fds st \<and>
      nx_input st' = nx_input st \<and> (\<forall>received. fits (nx_codec st') (nx_input st' @ received))
    else next_decode C st = (None, st', nx_fds st) \<and> nx_error st' = get_or_insert (nx_error st) FrameTooLarge \<and>
      nx_fds st' = [] \<and> nx_input st' = [] \<and> (\<forall>received. fits (nx_codec st') received)"
proof -
  obtain k' where "codec_decode C (nx_codec st) (nx_input st) = (Inr None, k', nx_input st)"
    "\<forall>received. fits k' (nx_input st @ received)"
    using decode_partial[OF assms] by blast
  then show ?thesis
    by (cases "nx_error st"; cases "length (nx_input st) \<le> MAX_REQUEST_BYTES")
      (auto simp: next_decode_def Let_def get_or_insert_def not_le fits_new)
qed

text \<open>Once an error is recorded, the frame is read to its newline and all its descriptors are closed.\<close>

lemma loop_rejecting:
  assumes "fits (nx_codec st) (nx_input st)" and "nx_error st = Some e"
    and "list_all (\<lambda>c. fst c \<noteq> []) chunks" and "no_data recvs"
  shows "next_loop C st (map Inr chunks @ recvs) =
    (case frame_chunks (nx_input st) chunks of
       None \<Rightarrow> (fst (end_result recvs), nx_fds st @ fds_of chunks @ snd (end_result recvs))
     | Some (used, rest) \<Rightarrow>
         (NextFrame \<lparr>frame_line = Inl e, frame_fds = []\<rparr> (after_line (stream_of (nx_input st) used)) (map Inr rest @ recvs),
          nx_fds st @ fds_of used))"
  using assms(1-3)
proof (induction chunks arbitrary: st)
  case Nil
  show ?case
  proof (cases "newline \<in> set (nx_input st)")
    case True
    from decode_complete[OF Nil(1) True] Nil(2) show ?thesis
      by (auto simp: True intro: next_loop_frame[THEN trans])
  next
    case False
    from decode_incomplete[OF Nil(1) False] Nil(2) show ?thesis
      by (auto simp: False next_loop_end[OF _ assms(4)])
  qed
next
  case (Cons c chunks)
  show ?case
  proof (cases "newline \<in> set (nx_input st)")
    case True
    from decode_complete[OF Cons(2) True] Cons(3) show ?thesis
      by (auto simp: True intro: next_loop_frame[THEN trans])
  next
    case False
    then obtain st' where d: "next_decode C st = (None, st', nx_fds st)" "nx_error st' = Some e" "nx_fds st' = []"
      "nx_input st' = []" "\<forall>received. fits (nx_codec st') received"
      using decode_incomplete[OF Cons(2) False] Cons(3) by (auto simp: get_or_insert_def)
    have ih: "next_loop C (next_receive st' c) (map Inr chunks @ recvs) =
      (case frame_chunks (fst c) chunks of
         None \<Rightarrow> (fst (end_result recvs), snd c @ fds_of chunks @ snd (end_result recvs))
       | Some (used, rest) \<Rightarrow>
           (NextFrame \<lparr>frame_line = Inl e, frame_fds = []\<rparr> (after_line (stream_of (fst c) used)) (map Inr rest @ recvs),
            snd c @ fds_of used))"
      using Cons.IH[of "next_receive st' c"] Cons.prems(3) d by (auto split: option.split)
    have "next_loop C st (map Inr (c # chunks) @ recvs) =
        apsnd (\<lambda>closed. nx_fds st @ closed) (next_loop C (next_receive st' c) (map Inr chunks @ recvs))"
      using next_loop_data[OF d(1)] Cons.prems(3) by simp
    with False show ?thesis
      by (auto simp: ih frame_chunks_prefix stream_of_prefix line_prefix split: option.splits)
  qed
qed

text \<open>A frame without an error so far.\<close>

lemma loop_accepting:
  assumes "fits (nx_codec st) (nx_input st)" and "nx_error st = None"
    and "list_all (\<lambda>c. fst c \<noteq> []) chunks" and "no_data recvs"
  shows "\<exists>e. next_loop C st (map Inr chunks @ recvs) =
    (case frame_chunks (nx_input st) chunks of
       None \<Rightarrow> (fst (end_result recvs), nx_fds st @ fds_of chunks @ snd (end_result recvs))
     | Some (used, rest) \<Rightarrow> frame_outcome utf8 (nx_input st) (nx_fds st) used (map Inr rest @ recvs) e)"
  using assms(1-3)
proof (induction chunks arbitrary: st)
  case Nil
  show ?case
  proof (cases "newline \<in> set (nx_input st)")
    case True
    from decode_complete[OF Nil(1) True] Nil(2) show ?thesis
      by (auto simp: True frame_outcome_def accepted_line_def fds_accepted_def Let_def next_loop_frame split: option.splits if_splits)
  next
    case False
    from decode_incomplete[OF Nil(1) False] Nil(2) show ?thesis
      by (auto simp: False next_loop_end[OF _ assms(4)] split: if_splits)
  qed
next
  case (Cons c chunks)
  let ?b = "nx_input st" and ?F = "nx_fds st"
  have c: "fst c \<noteq> []" "list_all (\<lambda>c. fst c \<noteq> []) chunks" using Cons.prems(3) by simp_all
  show ?case
  proof (cases "newline \<in> set ?b")
    case True
    from decode_complete[OF Cons.prems(1) True] Cons.prems(2) show ?thesis
      by (auto simp: True frame_outcome_def accepted_line_def fds_accepted_def Let_def next_loop_frame split: option.splits if_splits)
  next
    case new: False
    show ?thesis
    proof (cases "length ?b \<le> MAX_REQUEST_BYTES")
      case True
      then obtain st' where d: "next_decode C st = (None, st', [])" "nx_error st' = None" "nx_fds st' = ?F"
        "nx_input st' = ?b" "\<forall>received. fits (nx_codec st') (?b @ received)"
        using decode_incomplete[OF Cons.prems(1) new] Cons.prems(2) by auto
      let ?st = "next_receive st' c"
      have step: "next_loop C st (map Inr (c # chunks) @ recvs) = next_loop C ?st (map Inr chunks @ recvs)"
        using next_loop_data[OF d(1) c(1)] by (cases "next_loop C ?st (map Inr chunks @ recvs)") simp
      show ?thesis
      proof (cases "nx_error ?st")
        case None
        then have "fds_accepted ?b [c]" using next_receive_error[OF d(2)] d(4) by simp
        then have "accepted_line utf8 (?b @ fst c) used = accepted_line utf8 ?b (c # used)" for used
          using fds_accepted_nonempty[of "?b @ fst c" used] c(1) by (auto simp: accepted_line_def fds_accepted_def)
        then show ?thesis
          using Cons.IH[of ?st] None c(2) d new unfolding step
          by (auto simp: frame_outcome_def Let_def split: option.splits)
      next
        case (Some e)
        then have "\<not> fds_accepted ?b [c]" using next_receive_error[OF d(2), of c] d(4) by auto
        then have "accepted_line utf8 ?b (c # used) = None" for used
          by (auto simp: accepted_line_def fds_accepted_def)
        then show ?thesis
          using loop_rejecting[of ?st, OF _ Some c(2) assms(4)] d new unfolding step
          by (intro exI[of _ e]) (auto simp: frame_outcome_def Let_def split: option.splits)
      qed
    next
      case False
      then obtain st' where d: "next_decode C st = (None, st', ?F)" "nx_error st' = Some FrameTooLarge" "nx_fds st' = []"
        "nx_input st' = []" "\<forall>received. fits (nx_codec st') received"
        using decode_incomplete[OF Cons.prems(1) new] Cons.prems(2) by (auto simp: get_or_insert_def)
      let ?st = "next_receive st' c"
      have step: "next_loop C st (map Inr (c # chunks) @ recvs) =
          apsnd (\<lambda>closed. ?F @ closed) (next_loop C ?st (map Inr chunks @ recvs))"
        using next_loop_data[OF d(1) c(1)] by simp
      have "accepted_line utf8 ?b (c # used) = None" for used
        using False new by (simp add: accepted_line_def Let_def stream_of_prefix line_prefix)
      then show ?thesis
        using loop_rejecting[of ?st, OF _ _ c(2) assms(4)] d new unfolding step
        by (intro exI[of _ FrameTooLarge])
          (auto simp: frame_outcome_def Let_def frame_chunks_prefix stream_of_prefix line_prefix split: option.splits)
    qed
  qed
qed

end

section \<open>A reference decoder\<close>

text \<open>Well-formed UTF-8, by the byte ranges of its sequences of one to four bytes.\<close>

definition between :: "u8 \<Rightarrow> u8 \<Rightarrow> u8 \<Rightarrow> bool" where
  "between l u b = (l \<le> b \<and> b \<le> u)"

fun utf8_valid :: "bytes \<Rightarrow> bool" where
  "utf8_valid [] = True"
| "utf8_valid (b # bs) =
     (if b < 128 then utf8_valid bs
      else (case bs of
              [] \<Rightarrow> False
            | b1 # bs1 \<Rightarrow>
                if between 194 223 b then between 128 191 b1 \<and> utf8_valid bs1
                else (case bs1 of
                        [] \<Rightarrow> False
                      | b2 # bs2 \<Rightarrow>
                          if between 224 239 b
                          then between (if b = 224 then 160 else 128) (if b = 237 then 159 else 191) b1 \<and>
                            between 128 191 b2 \<and> utf8_valid bs2
                          else (case bs2 of
                                  [] \<Rightarrow> False
                                | b3 # bs3 \<Rightarrow>
                                    between 240 244 b \<and>
                                    between (if b = 240 then 144 else 128) (if b = 244 then 143 else 191) b1 \<and>
                                    between 128 191 b2 \<and> between 128 191 b3 \<and> utf8_valid bs3))))"

definition ref_utf8 :: "bytes \<Rightarrow> string option" where
  "ref_utf8 bs = (if utf8_valid bs then Some (map (\<lambda>b. char_of (unat b)) bs) else None)"

text \<open>The decoder remembers how far it has searched.\<close>

definition ref_codec :: "nat lines_codec" where
  "ref_codec =
     \<lparr>codec_new = 0,
      codec_decode = (\<lambda>searched buf.
        case dropWhile (\<lambda>x. x \<noteq> newline) (drop searched buf) of
          [] \<Rightarrow> (Inr None, length buf, buf)
        | _ # rest \<Rightarrow>
            (case ref_utf8 (strip_cr (take searched buf @ first_line (drop searched buf))) of
               Some s \<Rightarrow> Inr (Some s) | None \<Rightarrow> Inl (), 0, rest))\<rparr>"

definition ref_fits :: "nat \<Rightarrow> bytes \<Rightarrow> bool" where
  "ref_fits searched buf \<longleftrightarrow> newline \<notin> set (take searched buf)"

lemma dropWhile_line: "newline \<notin> set l \<Longrightarrow> dropWhile (\<lambda>x. x \<noteq> newline) (l @ newline # rest) = newline # rest"
  by (induction l) auto

lemma ref_codec_line:
  assumes "ref_fits k (line @ newline # rest)" and "newline \<notin> set line"
  shows "dropWhile (\<lambda>x. x \<noteq> newline) (drop k (line @ newline # rest)) = newline # rest"
    "take k (line @ newline # rest) @ first_line (drop k (line @ newline # rest)) = line"
proof -
  have "k \<le> length line" using assms(1) by (auto simp: ref_fits_def take_Cons' not_le split: if_splits)
  moreover have "newline \<notin> set (drop k line)" using assms(2) by (meson in_set_dropD)
  ultimately show "dropWhile (\<lambda>x. x \<noteq> newline) (drop k (line @ newline # rest)) = newline # rest"
    "take k (line @ newline # rest) @ first_line (drop k (line @ newline # rest)) = line"
    by (simp_all add: line_prefix dropWhile_line)
qed

interpretation ref_lines: lines_codec_api ref_codec ref_fits ref_utf8
proof unfold_locales
  show "ref_fits (codec_new ref_codec) buf" for buf by (simp add: ref_fits_def ref_codec_def)
next
  fix k buf assume "newline \<notin> set buf"
  then have "newline \<notin> set (drop k buf)" by (meson in_set_dropD)
  then have "dropWhile (\<lambda>x. x \<noteq> newline) (drop k buf) = []" by (auto simp: dropWhile_eq_Nil_conv)
  then show "\<exists>k'. codec_decode ref_codec k buf = (Inr None, k', buf) \<and> (\<forall>received. ref_fits k' (buf @ received))"
    using \<open>newline \<notin> set buf\<close> by (simp add: ref_codec_def ref_fits_def del: dropWhile_eq_Nil_conv)
next
  fix k line rest assume "ref_fits k (line @ newline # rest)" "newline \<notin> set line"
  then show "\<exists>k'. codec_decode ref_codec k (line @ newline # rest) =
      (case ref_utf8 (strip_cr line) of Some s \<Rightarrow> Inr (Some s) | None \<Rightarrow> Inl (), k', rest)"
    using ref_codec_line[of k line rest] by (simp add: ref_codec_def)
qed

section \<open>Sequences of frames\<close>

text \<open>Reading up to a number of frames, as the control task does.\<close>

fun read_frames ::
  "'k lines_codec \<Rightarrow> nat \<Rightarrow> ControlTransport \<Rightarrow> recv_result list \<Rightarrow>
   Frame list \<times> ControlTransport \<times> recv_result list \<times> int list" where
  "read_frames C 0 ct recvs = ([], ct, recvs, [])"
| "read_frames C (Suc n) ct recvs =
     (case transport_next C ct recvs of
        (NextFrame frame _ recvs, ct, closed) \<Rightarrow>
          (case read_frames C n ct recvs of (frames, ct, recvs, closed') \<Rightarrow> (frame # frames, ct, recvs, closed @ closed'))
      | (_, ct, closed) \<Rightarrow> ([], ct, [], closed))"

lemma recvs_split:
  "\<exists>chunks after. recvs = map Inr chunks @ after \<and> list_all (\<lambda>c. fst c \<noteq> []) chunks \<and> no_data after"
proof (induction recvs)
  case Nil
  show ?case by (rule exI[of _ "[]"]) (simp add: no_data_def)
next
  case (Cons r recvs)
  then obtain chunks after where ih: "recvs = map Inr chunks @ after" "list_all (\<lambda>c. fst c \<noteq> []) chunks" "no_data after"
    by blast
  show ?case
  proof (cases "no_data (r # recvs)")
    case True
    then show ?thesis by (intro exI[of _ "[]"] exI[of _ "r # recvs"]) simp
  next
    case False
    then obtain c where "r = Inr c" "fst c \<noteq> []" by (auto simp: no_data_def split: sum.splits)
    then show ?thesis using ih by (intro exI[of _ "c # chunks"] exI[of _ after]) simp
  qed
qed

lemma frame_chunks_append:
  "frame_chunks b cs = Some (used, rest) \<Longrightarrow> frame_chunks b (cs @ cs') = Some (used, rest @ cs')"
  by (induction b cs arbitrary: used rest rule: frame_chunks.induct) (auto split: if_splits, cases cs', auto)

lemma frame_chunks_None: "frame_chunks b cs = None \<longleftrightarrow> newline \<notin> set (stream_of b cs)"
  by (induction b cs rule: frame_chunks.induct) (auto simp: stream_of_def)

context lines_codec_api
begin

lemma next_outcome:
  assumes "list_all (\<lambda>c. fst c \<noteq> []) chunks" and "no_data recvs"
  shows "case frame_chunks (buffered ct) chunks of
      None \<Rightarrow> transport_next C ct (map Inr chunks @ recvs) =
        (fst (end_result recvs), ct\<lparr>buffered := []\<rparr>, fds_of chunks @ snd (end_result recvs))
    | Some (used, rest) \<Rightarrow> \<exists>e. transport_next C ct (map Inr chunks @ recvs) =
        (NextFrame
           (case accepted_line utf8 (buffered ct) used of
              Some s \<Rightarrow> \<lparr>frame_line = Inr s, frame_fds = fds_of used\<rparr> | None \<Rightarrow> \<lparr>frame_line = Inl e, frame_fds = []\<rparr>)
           (after_line (stream_of (buffered ct) used)) (map Inr rest @ recvs),
         ct\<lparr>buffered := after_line (stream_of (buffered ct) used)\<rparr>,
         if accepted_line utf8 (buffered ct) used = None then fds_of used else [])"
proof -
  let ?st = "\<lparr>nx_input = buffered ct, nx_fds = [], nx_error = None, nx_codec = codec_new C\<rparr>"
  obtain e where e: "next_loop C ?st (map Inr chunks @ recvs) =
    (case frame_chunks (buffered ct) chunks of
       None \<Rightarrow> (fst (end_result recvs), fds_of chunks @ snd (end_result recvs))
     | Some (used, rest) \<Rightarrow> frame_outcome utf8 (buffered ct) [] used (map Inr rest @ recvs) e)"
    using loop_accepting[of ?st, OF _ _ assms] fits_new unfolding next_state.select_convs append_Nil by blast
  have "transport_next C ct (map Inr chunks @ recvs) =
    (case next_loop C ?st (map Inr chunks @ recvs) of
       (result, closed) \<Rightarrow> (result, ct\<lparr>buffered := (case result of NextFrame _ rest _ \<Rightarrow> rest | _ \<Rightarrow> [])\<rparr>, closed))"
    by (simp add: transport_next_def)
  moreover have "\<forall>frame rest recvs'. fst (end_result recvs) \<noteq> NextFrame frame rest recvs'"
    by (auto simp: end_result_def split: list.splits sum.splits)
  ultimately show ?thesis
    unfolding e by (auto simp: frame_outcome_def Let_def split: option.splits next_result.splits)
qed

text \<open>The same when the line is among the first chunks, whatever follows them.\<close>

lemma next_outcome_first:
  assumes "list_all (\<lambda>c. fst c \<noteq> []) chunks" and "frame_chunks (buffered ct) chunks = Some (used, rest)"
    and "accepted_line utf8 (buffered ct) used = Some s"
  shows "transport_next C ct (map Inr chunks @ recvs) =
    (NextFrame \<lparr>frame_line = Inr s, frame_fds = fds_of used\<rparr> (after_line (stream_of (buffered ct) used)) (map Inr rest @ recvs),
     ct\<lparr>buffered := after_line (stream_of (buffered ct) used)\<rparr>, [])"
proof -
  obtain cs after where r: "recvs = map Inr cs @ after" "list_all (\<lambda>c. fst c \<noteq> []) cs" "no_data after"
    using recvs_split by blast
  from next_outcome[of "chunks @ cs" after ct] r assms(1,3) frame_chunks_append[OF assms(2), of cs] show ?thesis
    by simp
qed

lemma read_stream:
  assumes "list_all (\<lambda>m. newline \<notin> set m \<and> length m \<le> MAX_REQUEST_BYTES \<and> utf8 (strip_cr m) = Some (text m)) msgs"
    and "list_all (\<lambda>c. fst c \<noteq> []) chunks" and "fds_accepted (buffered ct) chunks"
    and "stream_of (buffered ct) chunks = concat (map (\<lambda>m. m @ [newline]) msgs)"
  shows "read_frames C (length msgs) ct (map Inr chunks @ recvs) =
    (case msgs of
       [] \<Rightarrow> []
     | m # ms \<Rightarrow> \<lparr>frame_line = Inr (text m), frame_fds = fds_of chunks\<rparr> #
         map (\<lambda>m. \<lparr>frame_line = Inr (text m), frame_fds = []\<rparr>) ms,
     ct\<lparr>buffered := []\<rparr>, recvs, [])"
  using assms
proof (induction msgs arbitrary: ct chunks)
  case Nil
  then show ?case by (cases chunks) (auto simp: stream_of_def)
next
  case (Cons m ms)
  let ?b = "buffered ct" and ?rest = "concat (map (\<lambda>m. m @ [newline]) ms)"
  have m: "newline \<notin> set m" "length m \<le> MAX_REQUEST_BYTES" "utf8 (strip_cr m) = Some (text m)"
    using Cons.prems(1) by simp_all
  have stream: "stream_of ?b chunks = m @ newline # ?rest" using Cons.prems(4) by simp
  then obtain used rest where f: "frame_chunks ?b chunks = Some (used, rest)"
    using frame_chunks_None[of ?b chunks] by fastforce
  note parts = frame_chunks_Some[OF f, THEN conjunct1] frame_chunks_Some[OF f, THEN conjunct2]
  have eq: "stream_of ?b used @ concat (map fst rest) = m @ newline # ?rest"
    using stream parts(1) by (simp add: stream_of_def)
  have line: "first_line (stream_of ?b used) = m" "stream_of (after_line (stream_of ?b used)) rest = ?rest"
    using split_line_append[OF parts(2) m(1) eq] by (simp_all add: stream_of_def)
  have fds: "fds_accepted ?b used" "fds_of rest = []" "fds_of used = fds_of chunks"
    using fds_accepted_frame[OF f Cons.prems(3)] by simp_all
  have "accepted_line utf8 ?b used = Some (text m)" using m line(1) fds(1) by (simp add: accepted_line_def)
  note step = next_outcome_first[OF Cons.prems(2) f this]
  have "list_all (\<lambda>c. fst c \<noteq> []) rest" "fds_accepted (after_line (stream_of ?b used)) rest"
    using Cons.prems(2) parts(1) fds(2) by (auto simp: fds_accepted_def split: list.splits)
  then show ?case
    using Cons.IH[of rest "ct\<lparr>buffered := after_line (stream_of ?b used)\<rparr>"] Cons.prems(1) line(2)
    by (cases ms) (simp_all add: step fds)
qed

end

section \<open>Properties\<close>

text \<open>
  C10: one call reads exactly one frame, however the stream is cut into chunks. It receives up to the
  first newline and keeps what follows it for the next call. The frame is accepted exactly if its
  line is at most 1 MiB of UTF-8 and descriptors, at most five, came with its first bytes only; then
  it has all of them. A rejected frame, an unfinished one at the end of the stream, on an error and
  on cancellation has every descriptor closed.
\<close>

theorem next_exact:
  assumes "lines_codec_api C fits utf8" and "list_all (\<lambda>c. fst c \<noteq> []) chunks" and "no_data recvs"
  shows "case frame_chunks (buffered ct) chunks of
      None \<Rightarrow> transport_next C ct (map Inr chunks @ recvs) =
        (fst (end_result recvs), ct\<lparr>buffered := []\<rparr>, fds_of chunks @ snd (end_result recvs))
    | Some (used, rest) \<Rightarrow> \<exists>e. transport_next C ct (map Inr chunks @ recvs) =
        (NextFrame
           (case accepted_line utf8 (buffered ct) used of
              Some s \<Rightarrow> \<lparr>frame_line = Inr s, frame_fds = fds_of used\<rparr> | None \<Rightarrow> \<lparr>frame_line = Inl e, frame_fds = []\<rparr>)
           (after_line (stream_of (buffered ct) used)) (map Inr rest @ recvs),
         ct\<lparr>buffered := after_line (stream_of (buffered ct) used)\<rparr>,
         if accepted_line utf8 (buffered ct) used = None then fds_of used else [])"
  using lines_codec_api.next_outcome[OF assms] .

theorem next_exact_witness:
  "\<exists>e. transport_next ref_codec \<lparr>ct_socket = 3, buffered = [123]\<rparr> [Inr ([125, 10, 91], [8]), Inr ([], [])] =
    (NextFrame \<lparr>frame_line = Inl e, frame_fds = []\<rparr> [91] [Inr ([], [])], \<lparr>ct_socket = 3, buffered = [91]\<rparr>, [8])"
proof -
  have "frame_chunks [123] [([125, 10, 91], [8])] = Some ([([125, 10, 91], [8])], [])"
    "accepted_line ref_utf8 [123] [([125, 10, 91], [8])] = None"
    "after_line [123, 125, 10, 91] = [91]"
    by code_simp+
  then show ?thesis
    using next_exact[OF ref_lines.lines_codec_api_axioms, of "[([125, 10, 91], [8])]" "[Inr ([], [])]"
        "\<lparr>ct_socket = 3, buffered = [123]\<rparr>"] by (simp add: no_data_def)
qed

text \<open>
  C33: what one side sends the other side reads back. When messages without newlines are sent with
  the sending operation and received in any chunks, descriptors only with the first, reading yields
  the messages in order and nothing else; the first frame has the descriptors, and none is closed.
\<close>

theorem send_receive_roundtrip:
  assumes "lines_codec_api C fits utf8"
    and "list_all (\<lambda>m. newline \<notin> set m \<and> length m \<le> MAX_REQUEST_BYTES \<and> utf8 (strip_cr m) = Some (text m)) (m # ms)"
    and "list_all (\<lambda>m. fst (transport_send os peer m) = Inr ()) (m # ms)"
    and "list_all (\<lambda>c. fst c \<noteq> []) chunks" and "buffered ct = []"
    and "length (fds_of (take 1 chunks)) \<le> MAX_FRAME_FDS" and "fds_of (drop 1 chunks) = []"
    and "stream_of [] chunks = concat (map (\<lambda>m. snd (transport_send os peer m)) (m # ms))"
  shows "read_frames C (length (m # ms)) ct (map Inr chunks @ recvs) =
    (\<lparr>frame_line = Inr (text m), frame_fds = fds_of chunks\<rparr> # map (\<lambda>m. \<lparr>frame_line = Inr (text m), frame_fds = []\<rparr>) ms,
     ct, recvs, [])"
proof -
  have "snd (transport_send os peer x) = x @ [newline]" if "fst (transport_send os peer x) = Inr ()" for x
    using that by (auto simp: transport_send_def split: prod.splits option.splits)
  then have "map (\<lambda>m. snd (transport_send os peer m)) (m # ms) = map (\<lambda>m. m @ [newline]) (m # ms)"
    using assms(3) by (auto simp: list_all_iff)
  then have "stream_of (buffered ct) chunks = concat (map (\<lambda>m. m @ [newline]) (m # ms))"
    using assms(5,8) by (simp only:)
  moreover have "fds_accepted (buffered ct) chunks"
    using assms(5-7) by (cases chunks) (simp_all add: fds_accepted_def)
  moreover have "ct\<lparr>buffered := []\<rparr> = ct" using assms(5) by simp
  ultimately show ?thesis
    using lines_codec_api.read_stream[OF assms(1,2,4), of ct recvs] by (simp only: list.case)
qed

definition sample_control_os :: control_os where
  "sample_control_os =
     \<lparr>os_ENOBUFS = 55, os_EDESTADDRREQ = 39, os_SOCK_DGRAM = 2, os_AF_UNIX = 1, os_dup = (\<lambda>fd. Inr (fd + 1)),
      os_getfd = (\<lambda>_. Inr ()), os_socket_type = (\<lambda>_. Inr 1), os_sockname = (\<lambda>_. Inr (0, 1)),
      os_set_nonblocking = (\<lambda>_. Inr ()), os_register = (\<lambda>_. Inr ()), os_peer_addr = (\<lambda>_. Inr ()),
      os_send = (\<lambda>_ pkt. Inr (length pkt)), os_SOCK_STREAM = 1, os_write_all = (\<lambda>_ msg. (None, length msg))\<rparr>"

theorem send_receive_roundtrip_witness:
  "read_frames ref_codec 2 \<lparr>ct_socket = 3, buffered = []\<rparr> (map Inr [([104], [7, 8]), ([105, 10, 121], []), ([111, 10], [])]) =
    ([\<lparr>frame_line = Inr ''hi'', frame_fds = [7, 8]\<rparr>, \<lparr>frame_line = Inr ''yo'', frame_fds = []\<rparr>],
     \<lparr>ct_socket = 3, buffered = []\<rparr>, [], [])"
proof -
  let ?text = "map (\<lambda>b. char_of (unat b)) :: bytes \<Rightarrow> string"
  have "list_all (\<lambda>m. newline \<notin> set m \<and> length m \<le> MAX_REQUEST_BYTES \<and> ref_utf8 (strip_cr m) = Some (?text m))
      [[104, 105], [121, 111]]"
    "stream_of [] [([104], [7, 8]), ([105, 10, 121], []), ([111, 10], [])] =
      concat (map (\<lambda>m. snd (transport_send sample_control_os \<lparr>ct_socket = 4, buffered = []\<rparr> m)) [[104, 105], [121, 111]])"
    "?text [104, 105] = ''hi''" "?text [121, 111] = ''yo''" "2 \<le> MAX_FRAME_FDS"
    by code_simp+
  then show ?thesis
    using send_receive_roundtrip[OF ref_lines.lines_codec_api_axioms, of ?text "[104, 105]" "[[121, 111]]" sample_control_os
        "\<lparr>ct_socket = 4, buffered = []\<rparr>" "[([104], [7, 8]), ([105, 10, 121], []), ([111, 10], [])]"
        "\<lparr>ct_socket = 3, buffered = []\<rparr>" "[]"]
    by (simp add: transport_send_def sample_control_os_def numeral_2_eq_2)
qed

end
