(* ===== verification/Control.thy ===== *)
theory Control
  imports Manager Control_Transport "HOL-Library.Monad_Syntax"
begin

text \<open>
  The control protocol (\<open>lib/control.rs\<close>): JSON-RPC requests on the control socket become requests
  to the manager, whose replies become responses. JSON parsing and printing, the JSON-RPC envelope
  and the textual forms of UUIDs, MAC addresses and DNS names are parameters; what serde derives for
  the parameter structures is written out. The manager is a function on a state.
\<close>

section \<open>JSON values\<close>

datatype json_number = U64 "64 word" | OtherNumber

datatype json =
    JNull
  | JBool bool
  | JNumber json_number
  | JString string
  | JArray "json list"
  | JObject "(string \<times> json) list"

text \<open>\<open>Value::get\<close>: the last of several members of one name is the one kept.\<close>

definition json_get :: "json \<Rightarrow> string \<Rightarrow> json option" where
  "json_get value key = (case value of JObject members \<Rightarrow> map_of (rev members) key | _ \<Rightarrow> None)"

section \<open>Requests and responses\<close>

datatype Id = IdNull | IdNumber "64 word" | IdStr string

record RpcRequest =
  rpc_method :: string
  rpc_id :: Id
  rpc_params :: "json option"

datatype error_code =
    PARSE_ERROR_CODE
  | INVALID_REQUEST_CODE
  | METHOD_NOT_FOUND_CODE
  | INVALID_PARAMS_CODE
  | CALL_EXECUTION_FAILED_CODE

text \<open>Messages: a fixed text, or the text of an error, of an error with its causes, or with a rule.\<close>

datatype 'n message =
    Text string
  | FrameText frame_error
  | ParamsText
  | InvalidRuleText string
  | ErrorText "'n manager_error"
  | ErrorChain "'n manager_error"

record 'n ErrorObject =
  err_code :: error_code
  err_message :: "'n message"

record 'n Response =
  resp_id :: Id
  resp_payload :: "'n ErrorObject + json"

text \<open>The crates: \<open>serde_json\<close>, \<open>jsonrpsee\<close>, \<open>uuid\<close>, \<open>mac_address\<close> and \<open>hickory\<close>, with \<open>ipnet\<close> for rules.\<close>

record 'n control_ops = ipnet_ops +
  json_from_str :: "string \<Rightarrow> json option"
  request_from_str :: "string \<Rightarrow> RpcRequest option"
  uuid_from_str :: "string \<Rightarrow> uuid option"
  uuid_to_string :: "uuid \<Rightarrow> string"
  mac_from_str :: "string \<Rightarrow> mac option"
  mac_to_string :: "mac \<Rightarrow> string"
  from_ascii :: "string \<Rightarrow> 'n option"
  to_vec :: "'n Response \<Rightarrow> bytes option"

definition MAX_RULES :: nat where
  "MAX_RULES = 4096"

definition rpc_error :: "error_code \<Rightarrow> 'n message \<Rightarrow> 'n ErrorObject" where
  "rpc_error code message = \<lparr>err_code = code, err_message = message\<rparr>"

definition response :: "Id \<Rightarrow> 'n ErrorObject + json \<Rightarrow> 'n Response" where
  "response req_id result = \<lparr>resp_id = req_id, resp_payload = result\<rparr>"

definition error_response :: "Id \<Rightarrow> error_code \<Rightarrow> 'n message \<Rightarrow> 'n Response" where
  "error_response req_id code message = response req_id (Inl (rpc_error code message))"

section \<open>Parameter structures\<close>

text \<open>
  What serde derives: a structure is an object of known, distinct members, or an array of its fields
  in order, in which only fields marked as defaulted may be missing at the end.
\<close>

definition struct_fields :: "string list \<Rightarrow> json \<Rightarrow> (string \<rightharpoonup> json) option" where
  "struct_fields names value =
     (case value of
        JObject members \<Rightarrow>
          if distinct (map fst members) \<and> list_all (\<lambda>(key, _). List.member names key) members
          then Some (map_of members) else None
      | JArray elements \<Rightarrow> if length elements \<le> length names then Some (map_of (zip names elements)) else None
      | _ \<Rightarrow> None)"

definition de_field :: "(json \<Rightarrow> 'a option) \<Rightarrow> 'a option \<Rightarrow> json option \<Rightarrow> 'a option" where
  "de_field de missing member = (case member of None \<Rightarrow> missing | Some value \<Rightarrow> de value)"

definition de_string :: "json \<Rightarrow> string option" where
  "de_string value = (case value of JString s \<Rightarrow> Some s | _ \<Rightarrow> None)"

definition de_option_string :: "json \<Rightarrow> string option option" where
  "de_option_string value = (case value of JNull \<Rightarrow> Some None | JString s \<Rightarrow> Some (Some s) | _ \<Rightarrow> None)"

definition de_vec :: "(json \<Rightarrow> 'a option) \<Rightarrow> json \<Rightarrow> 'a list option" where
  "de_vec de value = (case value of JArray elements \<Rightarrow> those (map de elements) | _ \<Rightarrow> None)"

record VmParams =
  vp_mac_address :: string
  vp_name :: "string option"
  vp_allow :: "string list"
  vp_block :: "string list"
  vp_expose :: "string list"

record InitializeParams =
  ip_net_type :: "string option"
  ip_vms :: "VmParams list"

record GetParams =
  gp_vm_id :: "string option"

record SetParams =
  sp_vm_id :: "string option"
  sp_allow :: "string list"
  sp_block :: "string list"

definition de_VmParams :: "json \<Rightarrow> VmParams option" where
  "de_VmParams value = do {
     fields \<leftarrow> struct_fields [''vmMacAddress'', ''name'', ''allow'', ''block'', ''expose''] value;
     mac_address \<leftarrow> de_field de_string None (fields ''vmMacAddress'');
     name \<leftarrow> de_field de_option_string (case value of JArray _ \<Rightarrow> None | _ \<Rightarrow> Some None) (fields ''name'');
     allow \<leftarrow> de_field (de_vec de_string) (Some []) (fields ''allow'');
     block \<leftarrow> de_field (de_vec de_string) (Some []) (fields ''block'');
     expose \<leftarrow> de_field (de_vec de_string) (Some []) (fields ''expose'');
     Some \<lparr>vp_mac_address = mac_address, vp_name = name, vp_allow = allow, vp_block = block, vp_expose = expose\<rparr>
   }"

definition de_InitializeParams :: "json \<Rightarrow> InitializeParams option" where
  "de_InitializeParams value = do {
     fields \<leftarrow> struct_fields [''vmNetType'', ''vms''] value;
     net_type \<leftarrow> de_field de_option_string (Some None) (fields ''vmNetType'');
     vms \<leftarrow> de_field (de_vec de_VmParams) None (fields ''vms'');
     Some \<lparr>ip_net_type = net_type, ip_vms = vms\<rparr>
   }"

definition de_GetParams :: "json \<Rightarrow> GetParams option" where
  "de_GetParams value = do {
     fields \<leftarrow> struct_fields [''vmId''] value;
     vm_id \<leftarrow> de_field de_option_string (Some None) (fields ''vmId'');
     Some \<lparr>gp_vm_id = vm_id\<rparr>
   }"

definition de_SetParams :: "json \<Rightarrow> SetParams option" where
  "de_SetParams value = do {
     fields \<leftarrow> struct_fields [''vmId'', ''allow'', ''block''] value;
     vm_id \<leftarrow> de_field de_option_string (Some None) (fields ''vmId'');
     allow \<leftarrow> de_field (de_vec de_string) None (fields ''allow'');
     block \<leftarrow> de_field (de_vec de_string) None (fields ''block'');
     Some \<lparr>sp_vm_id = vm_id, sp_allow = allow, sp_block = block\<rparr>
   }"

section \<open>Parsing a frame\<close>

definition recover_id :: "json \<Rightarrow> Id" where
  "recover_id value =
     (case json_get value ''id'' of
        Some (JString s) \<Rightarrow> IdStr s
      | Some (JNumber (U64 n)) \<Rightarrow> IdNumber n
      | _ \<Rightarrow> IdNull)"

definition parse_request :: "('n, 'z) control_ops_scheme \<Rightarrow> string \<Rightarrow> 'n Response + RpcRequest" where
  "parse_request J line =
     (case json_from_str J line of
        None \<Rightarrow> Inl (error_response IdNull PARSE_ERROR_CODE (Text ''invalid JSON-RPC frame''))
      | Some value \<Rightarrow>
          (let strict_envelope =
                 (case value of
                    JObject members \<Rightarrow>
                      list_all (\<lambda>(key, _). List.member [''jsonrpc'', ''id'', ''method'', ''params''] key) members
                  | _ \<Rightarrow> False);
               valid_id =
                 (case json_get value ''id'' of
                    Some (JString _) \<Rightarrow> True
                  | Some (JNumber (U64 _)) \<Rightarrow> True
                  | _ \<Rightarrow> False);
               invalid = Inl (error_response (recover_id value) INVALID_REQUEST_CODE (Text ''invalid JSON-RPC request''))
           in (case request_from_str J line of
                 Some request \<Rightarrow> if strict_envelope \<and> valid_id then Inr request else invalid
               | None \<Rightarrow> invalid)))"

definition invalid_params :: "'n message \<Rightarrow> 'n ErrorObject" where
  "invalid_params message = rpc_error INVALID_PARAMS_CODE message"

definition params_value :: "RpcRequest \<Rightarrow> json" where
  "params_value request = (case rpc_params request of None \<Rightarrow> JNull | Some value \<Rightarrow> value)"

definition params_parse :: "(json \<Rightarrow> 'a option) \<Rightarrow> RpcRequest \<Rightarrow> 'n ErrorObject + 'a" where
  "params_parse de request = ok_or (invalid_params ParamsText) (de (params_value request))"

definition parse_vm_id ::
  "('n, 'z) control_ops_scheme \<Rightarrow> string option \<Rightarrow> 'n ErrorObject + uuid option" where
  "parse_vm_id J vm_id =
     (case vm_id of
        None \<Rightarrow> Inr None
      | Some s \<Rightarrow> and_then (ok_or (invalid_params (Text ''unknown vmId'')) (uuid_from_str J s)) (\<lambda>u. Inr (Some u)))"

definition parse_rules :: "('n, 'z) control_ops_scheme \<Rightarrow> string list \<Rightarrow> 'n ErrorObject + Rule list" where
  "parse_rules J rules =
     collect_results (map (\<lambda>rule. map_err (\<lambda>_. invalid_params (InvalidRuleText rule)) (Rule_parse J rule)) rules)"

definition parse_policy ::
  "('n, 'z) control_ops_scheme \<Rightarrow> string list \<Rightarrow> string list \<Rightarrow> 'n ErrorObject + (Rule list \<times> Rule list)" where
  "parse_policy J allow block =
     (if length allow + length block > MAX_RULES
      then Inl (invalid_params (Text ''allow and block may contain at most 4096 rules combined''))
      else and_then (parse_rules J allow) (\<lambda>allow. and_then (parse_rules J block) (\<lambda>block. Inr (allow, block))))"

definition vm_config ::
  "('n, 'z) control_ops_scheme \<Rightarrow> VmParams \<times> int \<Rightarrow> 'n ErrorObject + 'n VmConfig" where
  "vm_config J entry =
     (case entry of (params, fd) \<Rightarrow>
        and_then (ok_or (invalid_params (Text ''invalid vmMacAddress'')) (mac_from_str J (vp_mac_address params))) (\<lambda>mac.
        and_then (case vp_name params of
                    None \<Rightarrow> Inr None
                  | Some s \<Rightarrow> and_then (ok_or (invalid_params (Text ''invalid name'')) (from_ascii J s)) (\<lambda>n. Inr (Some n)))
          (\<lambda>name.
        and_then (parse_policy J (vp_allow params) (vp_block params)) (\<lambda>(allow, block).
        and_then (collect_results (map (\<lambda>port. map_err (\<lambda>_. invalid_params (Text ''invalid exposed port specification''))
                    (ExposedPort_from_str port)) (vp_expose params))) (\<lambda>ports.
          Inr \<lparr>vm_fd = fd, cfg_mac_address = mac, cfg_name = name, cfg_allow = allow, cfg_block = block,
               exposed_ports = ports\<rparr>)))))"

text \<open>The request, or the error with all descriptors dropped; the last component is those dropped.\<close>

definition parse_initialize ::
  "('n, 'z) control_ops_scheme \<Rightarrow> int list \<Rightarrow> InitializeParams \<Rightarrow> ('n ErrorObject + 'n Request) \<times> int list" where
  "parse_initialize J fds params =
     (case (if \<not> (1 \<le> length (ip_vms params) \<and> length (ip_vms params) \<le> MAX_VMS)
            then Inl (invalid_params (Text ''vms must contain between 1 and 5 entries''))
            else if length fds \<noteq> length (ip_vms params)
            then Inl (invalid_params (Text ''softnet.initialize requires exactly one SCM_RIGHTS descriptor per VM''))
            else and_then (case (case ip_net_type params of None \<Rightarrow> ''nat'' | Some s \<Rightarrow> s) of s \<Rightarrow>
                             if s = ''nat'' then Inr NetNat
                             else if s = ''host'' then Inr NetHost
                             else Inl (invalid_params (Text ''vmNetType must be nat or host''))) (\<lambda>vm_net_type.
                   and_then (collect_results (map (vm_config J) (zip (ip_vms params) fds))) (\<lambda>vms.
                     Inr (Initialize vm_net_type vms)))) of
        Inl e \<Rightarrow> (Inl e, fds)
      | Inr request \<Rightarrow> (Inr request, []))"

definition parse_method ::
  "('n, 'z) control_ops_scheme \<Rightarrow> RpcRequest \<Rightarrow> int list \<Rightarrow> ('n ErrorObject + 'n Request) \<times> int list" where
  "parse_method J request fds =
     (if rpc_method request = ''softnet.initialize''
      then (case params_parse de_InitializeParams request of
              Inl e \<Rightarrow> (Inl e, fds)
            | Inr params \<Rightarrow> parse_initialize J fds params)
      else if rpc_method request = ''softnet.policy.get''
      then (and_then (case params_value request of
                        JNull \<Rightarrow> Inr \<lparr>gp_vm_id = None\<rparr>
                      | JObject _ \<Rightarrow> params_parse de_GetParams request
                      | _ \<Rightarrow> Inl (invalid_params (Text ''invalid policy target''))) (\<lambda>params.
             and_then (parse_vm_id J (gp_vm_id params)) (\<lambda>vm_id. Inr (GetPolicy vm_id))), fds)
      else if rpc_method request = ''softnet.policy.set''
      then (and_then (params_parse de_SetParams request) (\<lambda>params.
             and_then (parse_vm_id J (sp_vm_id params)) (\<lambda>vm_id.
             and_then (parse_policy J (sp_allow params) (sp_block params)) (\<lambda>(allow, block).
               Inr (SetPolicy vm_id allow block)))), fds)
      else (Inl (rpc_error METHOD_NOT_FOUND_CODE (Text ''method not found'')), fds))"

definition Control_parse ::
  "('n, 'z) control_ops_scheme \<Rightarrow> Frame \<Rightarrow> ('n Response + (Id \<times> 'n Request)) \<times> int list" where
  "Control_parse J frame =
     (case and_then (map_err (\<lambda>e. error_response IdNull PARSE_ERROR_CODE (FrameText e)) (frame_line frame))
             (parse_request J) of
        Inl e \<Rightarrow> (Inl e, frame_fds frame)
      | Inr request \<Rightarrow>
          (case parse_method J request (frame_fds frame) of
             (Inl e, closed) \<Rightarrow> (Inl (response (rpc_id request) (Inl e)), closed)
           | (Inr parsed, closed) \<Rightarrow> (Inr (rpc_id request, parsed), closed)))"

section \<open>The control task\<close>

definition reply_json :: "('n, 'z) control_ops_scheme \<Rightarrow> Reply \<Rightarrow> json" where
  "reply_json J reply =
     (case reply of
        Initialized vms \<Rightarrow>
          JObject [(''vms'', JArray (map (\<lambda>(vm_id, mac). JObject [(''vmId'', JString (uuid_to_string J vm_id)),
            (''vmMacAddress'', JString (mac_to_string J mac))]) vms))]
      | PolicyReply policy \<Rightarrow>
          JObject [(''allow'', JArray (map (\<lambda>r. JString (Rule_to_string J r)) (pol_allow policy))),
            (''block'', JArray (map (\<lambda>r. JString (Rule_to_string J r)) (pol_block policy))),
            (''ruleCount'', JNumber (U64 (of_nat (rule_count policy))))])"

definition call_result ::
  "('n, 'z) control_ops_scheme \<Rightarrow> 'n CallError + Reply \<Rightarrow> 'n ErrorObject + json" where
  "call_result J result =
     (case result of
        Inr reply \<Rightarrow> Inr (reply_json J reply)
      | Inl (CallInvalidParams e) \<Rightarrow> Inl (rpc_error INVALID_PARAMS_CODE (ErrorText e))
      | Inl (CallFailed e) \<Rightarrow> Inl (rpc_error CALL_EXECUTION_FAILED_CODE (ErrorChain e)))"

text \<open>
  The response to a frame. The manager may no longer take calls or may drop one without a reply,
  and then there is none.
\<close>

definition control_answer ::
  "('n, 'z) control_ops_scheme \<Rightarrow> ('s \<Rightarrow> 'n Request \<Rightarrow> ('n CallError + Reply) option \<times> 's) \<Rightarrow> 's \<Rightarrow> Frame \<Rightarrow>
   'n Response option \<times> 's \<times> int list" where
  "control_answer J call s frame =
     (case Control_parse J frame of
        (Inl resp, closed) \<Rightarrow> (Some resp, s, closed)
      | (Inr (req_id, request), closed) \<Rightarrow>
          (case call s request of
             (None, s) \<Rightarrow> (None, s, closed)
           | (Some result, s) \<Rightarrow> (Some (response req_id (call_result J result)), s, closed)))"

record Control =
  transport :: ControlTransport

definition Control_new :: "'z control_os_scheme \<Rightarrow> int \<Rightarrow> (transport_error + Control) \<times> int list" where
  "Control_new os control_fd =
     (case ControlTransport_new os control_fd of
        (Inl e, closed) \<Rightarrow> (Inl e, closed)
      | (Inr ct, closed) \<Rightarrow> (Inr \<lparr>transport = ct\<rparr>, closed))"

datatype control_error = ControlIo io_error | SerializeFailed

text \<open>
  Whether a response can be written before the manager closes the channel of calls, or how much of
  it is written until then.
\<close>

datatype turn = SendReady | SendBlocked nat

text \<open>
  The loop of the task: one turn per frame until the channel is closed, which ends it between two
  frames or while it waits. It returns its result, the manager's state, what it wrote and the
  descriptors it closed.
\<close>

fun control_run ::
  "('n, 'z) control_ops_scheme \<Rightarrow> 'k lines_codec \<Rightarrow> 'o control_os_scheme \<Rightarrow>
   ('s \<Rightarrow> 'n Request \<Rightarrow> ('n CallError + Reply) option \<times> 's) \<Rightarrow> turn list \<Rightarrow> ControlTransport \<Rightarrow>
   recv_result list \<Rightarrow> 's \<Rightarrow> (control_error + unit) \<times> 's \<times> bytes \<times> int list" where
  "control_run J C os call [] ct recvs s = (Inr (), s, [], [])"
| "control_run J C os call (turn # turns) ct recvs s =
     (case transport_next C ct recvs of
        (NextFrame frame _ recvs, ct, closed) \<Rightarrow>
          (case control_answer J call s frame of
             (None, s, closed') \<Rightarrow> (Inr (), s, [], closed @ closed')
           | (Some resp, s, closed') \<Rightarrow>
               (case to_vec J resp of
                  None \<Rightarrow> (Inl SerializeFailed, s, [], closed @ closed')
                | Some response_bytes \<Rightarrow>
                    (case turn of
                       SendBlocked n \<Rightarrow> (Inr (), s, take n (response_bytes @ [newline]), closed @ closed')
                     | SendReady \<Rightarrow>
                         (case transport_send os ct response_bytes of
                            (Inl e, written) \<Rightarrow> (Inl (ControlIo e), s, written, closed @ closed')
                          | (Inr _, written) \<Rightarrow>
                              (case control_run J C os call turns ct recvs s of
                                 (result, s, written', closed'') \<Rightarrow>
                                   (result, s, written @ written', closed @ closed' @ closed''))))))
      | (NextFailed e _, ct, closed) \<Rightarrow> (Inl (ControlIo e), s, [], closed)
      | (_, ct, closed) \<Rightarrow> (Inr (), s, [], closed))"

section \<open>What is promised of the crates\<close>

definition envelope_keys :: "string list" where
  "envelope_keys = [''jsonrpc'', ''id'', ''method'', ''params'']"

text \<open>A JSON-RPC 2.0 request object with no other members; a null among the parameters is their absence.\<close>

definition envelope :: "(string \<times> json) list \<Rightarrow> RpcRequest option" where
  "envelope members =
     (if distinct (map fst members) \<and> map_of members ''jsonrpc'' = Some (JString ''2.0'')
      then do {
        method \<leftarrow> Option.bind (map_of members ''method'') de_string;
        req_id \<leftarrow> (case map_of members ''id'' of
                    Some (JString s) \<Rightarrow> Some (IdStr s)
                  | Some (JNumber (U64 n)) \<Rightarrow> Some (IdNumber n)
                  | Some JNull \<Rightarrow> Some IdNull
                  | _ \<Rightarrow> None);
        Some \<lparr>rpc_method = method, rpc_id = req_id,
              rpc_params = (case map_of members ''params'' of Some JNull \<Rightarrow> None | params \<Rightarrow> params)\<rparr>
      }
      else None)"

text \<open>
  The documented behaviour of the crates: \<open>jsonrpsee\<close> reads the request objects of the JSON-RPC
  specification, a printed UUID is read back, and \<open>serde_json\<close> prints a value on one line.
\<close>

locale control_api = ipnet_api J
  for J :: "('n, 'z) control_ops_scheme" +
  assumes request_law: "json_from_str J line = Some (JObject members) \<Longrightarrow>
      list_all (\<lambda>(key, _). key \<in> set envelope_keys) members \<Longrightarrow> request_from_str J line = envelope members"
    and uuid_law: "uuid_from_str J (uuid_to_string J u) = Some u"
    and one_line: "to_vec J r = Some b \<Longrightarrow> newline \<notin> set b"

text \<open>The requests the protocol accepts, as a property of the JSON value.\<close>

definition json_request :: "json \<Rightarrow> RpcRequest option" where
  "json_request value =
     (case value of
        JObject members \<Rightarrow>
          if list_all (\<lambda>(key, _). key \<in> set envelope_keys) members
          then (case envelope members of Some r \<Rightarrow> if rpc_id r = IdNull then None else Some r | None \<Rightarrow> None)
          else None
      | _ \<Rightarrow> None)"

lemma map_of_rev_distinct: "distinct (map fst xs) \<Longrightarrow> map_of (rev xs) = map_of xs"
  by (rule map_of_inject_set[THEN iffD2]) (simp_all add: rev_map[symmetric])

lemma json_request_id: "json_request value = Some r \<Longrightarrow> rpc_id r = recover_id value \<and> rpc_id r \<noteq> IdNull"
  by (auto simp: json_request_def envelope_def recover_id_def json_get_def map_of_rev_distinct bind_eq_Some_conv
      split: json.splits option.splits if_splits json_number.splits)

context control_api
begin

lemma parse_request_exact:
  "parse_request J line =
     (case json_from_str J line of
        None \<Rightarrow> Inl (error_response IdNull PARSE_ERROR_CODE (Text ''invalid JSON-RPC frame''))
      | Some value \<Rightarrow>
          (case json_request value of
             None \<Rightarrow> Inl (error_response (recover_id value) INVALID_REQUEST_CODE (Text ''invalid JSON-RPC request''))
           | Some request \<Rightarrow> Inr request))"
proof (cases "json_from_str J line")
  case (Some v)
  show ?thesis
  proof (cases "\<exists>members. v = JObject members \<and> list_all (\<lambda>(key, _). key \<in> set envelope_keys) members")
    case True
    then obtain members where m: "v = JObject members" "list_all (\<lambda>(key, _). key \<in> set envelope_keys) members" by blast
    then have "request_from_str J line = envelope members" using request_law Some by simp
    moreover have "rpc_id r \<noteq> IdNull \<longleftrightarrow> (case json_get v ''id'' of
        Some (JString _) \<Rightarrow> True | Some (JNumber (U64 _)) \<Rightarrow> True | _ \<Rightarrow> False)" if "envelope members = Some r" for r
      using that m(1) by (auto simp: envelope_def json_get_def map_of_rev_distinct bind_eq_Some_conv
          split: json.splits option.splits if_splits json_number.splits)
    ultimately show ?thesis
      using m Some by (auto simp: parse_request_def json_request_def envelope_keys_def Let_def split: option.splits)
  next
    case False
    then show ?thesis
      using Some by (auto simp: parse_request_def json_request_def envelope_keys_def Let_def split: json.splits option.splits)
  qed
qed (simp add: parse_request_def)

end

section \<open>Lemmas: parsing\<close>

lemma those_map_Some [simp]: "those (map (\<lambda>x. Some (f x)) xs) = Some (map f xs)"
  by (induction xs) simp_all

lemma parse_rules_Inr: "parse_rules J ss = Inr rs \<longleftrightarrow> map (Rule_parse J) ss = map Inr rs"
proof -
  have "map_err f r = Inr a \<longleftrightarrow> r = Inr a" for f r a by (cases r) (simp_all add: map_err_def)
  then show ?thesis
    unfolding parse_rules_def collect_results_Inr_iff by (auto simp: list_eq_iff_nth_eq)
qed

lemma parse_policy_Inr:
  "parse_policy J allow block = Inr (as, bs) \<longleftrightarrow>
     length allow + length block \<le> MAX_RULES \<and> map (Rule_parse J) allow = map Inr as \<and> map (Rule_parse J) block = map Inr bs"
  by (auto simp: parse_policy_def parse_rules_Inr result_iffs)

lemma map_Inr_length: "map f xs = map Inr ys \<Longrightarrow> length xs = length ys"
  by (rule map_eq_imp_length_eq)

text \<open>What a parsed policy and a parsed request satisfy.\<close>

definition policy_ok :: "Rule list \<Rightarrow> Rule list \<Rightarrow> bool" where
  "policy_ok allow block \<longleftrightarrow> length allow + length block \<le> MAX_RULES \<and> list_all Rule_wf (allow @ block)"

definition request_ok :: "int list \<Rightarrow> 'n Request \<Rightarrow> bool" where
  "request_ok fds request =
     (case request of
        Initialize _ vms \<Rightarrow>
          1 \<le> length vms \<and> length vms \<le> MAX_VMS \<and> map vm_fd vms = fds \<and>
          list_all (\<lambda>vm. policy_ok (cfg_allow vm) (cfg_block vm)) vms
      | GetPolicy _ \<Rightarrow> True
      | SetPolicy _ allow block \<Rightarrow> policy_ok allow block)"

definition request_fds :: "'n Request \<Rightarrow> int list" where
  "request_fds request = (case request of Initialize _ vms \<Rightarrow> map vm_fd vms | _ \<Rightarrow> [])"

lemma vm_config_fd: "vm_config J (params, fd) = Inr vm \<Longrightarrow> vm_fd vm = fd"
  by (auto simp: vm_config_def result_iffs)

lemma vm_configs_fds:
  "map (vm_config J) (zip ps fds) = map Inr vms \<Longrightarrow> length ps = length fds \<Longrightarrow> map vm_fd vms = fds"
proof (induction ps arbitrary: fds vms)
  case (Cons p ps)
  then obtain fd fds' where fds: "fds = fd # fds'" by (cases fds) auto
  then obtain vm vms' where "vms = vm # vms'" "vm_config J (p, fd) = Inr vm"
    "map (vm_config J) (zip ps fds') = map Inr vms'"
    using Cons.prems(1) by (cases vms) auto
  then show ?case using Cons.IH Cons.prems(2) fds vm_config_fd by fastforce
qed simp

context control_api
begin

lemma Rule_parse_all_wf: "map (Rule_parse J) ss = map Inr rs \<Longrightarrow> list_all Rule_wf rs"
proof (induction ss arbitrary: rs)
  case (Cons s ss)
  then show ?case using Rule_parse_wf by (cases rs) auto
qed simp

lemma parse_policy_ok: "parse_policy J allow block = Inr (as, bs) \<Longrightarrow> policy_ok as bs"
  unfolding parse_policy_Inr policy_ok_def
  using Rule_parse_all_wf map_Inr_length[of "Rule_parse J" allow as] map_Inr_length[of "Rule_parse J" block bs] by auto

lemma vm_config_policy: "vm_config J entry = Inr vm \<Longrightarrow> policy_ok (cfg_allow vm) (cfg_block vm)"
  using parse_policy_ok by (auto simp: vm_config_def result_iffs split: prod.splits)

lemma parse_initialize_ok:
  assumes "parse_initialize J fds params = (Inr request, closed)"
  shows "request_ok fds request \<and> closed = [] \<and> request_fds request = fds"
proof -
  obtain net_type vms where r: "request = Initialize net_type vms" "closed = []"
    and len: "1 \<le> length (ip_vms params)" "length (ip_vms params) \<le> MAX_VMS" "length (ip_vms params) = length fds"
    and vms: "map (vm_config J) (zip (ip_vms params) fds) = map Inr vms"
    using assms unfolding parse_initialize_def collect_results_Inr_iff[symmetric]
    by (auto simp: result_iffs split: sum.split_asm if_split_asm)
  have "map vm_fd vms = fds" using vm_configs_fds[OF vms len(3)] .
  moreover have "policy_ok (cfg_allow vm) (cfg_block vm)" if "vm \<in> set vms" for vm
  proof -
    from that have "Inr vm \<in> set (map (vm_config J) (zip (ip_vms params) fds))" unfolding vms by simp
    then show ?thesis using vm_config_policy by auto
  qed
  moreover have "length vms = length fds" using map_Inr_length[OF vms] len(3) by simp
  ultimately show ?thesis using r len by (auto simp: request_ok_def request_fds_def list_all_iff)
qed

lemma parse_initialize_error: "parse_initialize J fds params = (Inl e, closed) \<Longrightarrow> closed = fds"
  by (auto simp: parse_initialize_def split: sum.split_asm)

lemma parse_method_cases:
  assumes "parse_method J r fds = (result, closed)"
  shows "case result of
      Inl _ \<Rightarrow> closed = fds
    | Inr request \<Rightarrow> request_ok fds request \<and> (request_fds request = fds \<and> closed = [] \<or> request_fds request = [] \<and> closed = fds)"
proof (cases "rpc_method r = ''softnet.initialize''")
  case True
  then show ?thesis
    using assms parse_initialize_ok parse_initialize_error
    by (auto simp: parse_method_def split: sum.splits)
next
  case False
  then have c: "closed = fds" using assms by (auto simp: parse_method_def split: if_split_asm)
  show ?thesis
  proof (cases result)
    case (Inr request)
    then have "request_ok fds request \<and> request_fds request = []"
      using assms False parse_policy_ok
      by (auto simp: parse_method_def result_iffs request_ok_def request_fds_def split: if_split_asm)
    then show ?thesis using Inr c by simp
  qed (use c in simp)
qed

end

text \<open>Every error of a known method is one of its parameters.\<close>

lemma and_then_Inl_iff: "and_then r f = Inl e \<longleftrightarrow> r = Inl e \<or> (\<exists>a. r = Inr a \<and> f a = Inl e)"
  by (cases r) (simp_all add: and_then_def)

lemma map_err_Inl_iff: "map_err f r = Inl e \<longleftrightarrow> (\<exists>e'. r = Inl e' \<and> e = f e')"
  by (cases r) (auto simp: map_err_def)

lemma ok_or_Inl_iff: "ok_or e v = Inl e' \<longleftrightarrow> v = None \<and> e' = e"
  by (auto simp: ok_or_def split: option.splits)

lemmas error_iffs = and_then_Inl_iff map_err_Inl_iff ok_or_Inl_iff

lemma collect_results_Inl: "collect_results (map f xs) = Inl e \<Longrightarrow> \<exists>x \<in> set xs. f x = Inl e"
  by (induction xs) (auto split: sum.splits)

lemma invalid_params_code [simp]: "err_code (invalid_params m) = INVALID_PARAMS_CODE"
  by (simp add: invalid_params_def rpc_error_def)

lemma parse_vm_id_code: "parse_vm_id J v = Inl e \<Longrightarrow> err_code e = INVALID_PARAMS_CODE"
  by (auto simp: parse_vm_id_def error_iffs split: option.splits)

lemma parse_rules_code: "parse_rules J rules = Inl e \<Longrightarrow> err_code e = INVALID_PARAMS_CODE"
  unfolding parse_rules_def by (drule collect_results_Inl) (auto simp: error_iffs)

lemma parse_policy_code: "parse_policy J allow block = Inl e \<Longrightarrow> err_code e = INVALID_PARAMS_CODE"
  by (auto simp: parse_policy_def error_iffs dest: parse_rules_code split: if_splits)

lemma vm_config_code:
  assumes "vm_config J entry = Inl e"
  shows "err_code e = INVALID_PARAMS_CODE"
proof -
  have ports: "err_code e = INVALID_PARAMS_CODE"
    if "collect_results (map (\<lambda>port. map_err (\<lambda>_. invalid_params m) (ExposedPort_from_str port)) ps) = Inl e" for m ps
    using collect_results_Inl[OF that] by (auto simp: error_iffs)
  show ?thesis
    using assms by (auto simp: vm_config_def error_iffs dest: parse_policy_code ports split: prod.splits option.splits)
qed

lemma parse_initialize_code:
  assumes "parse_initialize J fds params = (Inl e, closed)"
  shows "err_code e = INVALID_PARAMS_CODE"
proof -
  have "err_code e = INVALID_PARAMS_CODE" if "collect_results (map (vm_config J) es) = Inl e" for es
    using collect_results_Inl[OF that] vm_config_code by blast
  then show ?thesis
    using assms by (auto simp: parse_initialize_def error_iffs split: sum.split_asm if_split_asm)
qed

lemma params_parse_code: "params_parse de r = Inl e \<Longrightarrow> err_code e = INVALID_PARAMS_CODE"
  by (auto simp: params_parse_def error_iffs)

definition methods :: "string list" where
  "methods = [''softnet.initialize'', ''softnet.policy.get'', ''softnet.policy.set'']"

lemma parse_method_code:
  assumes "parse_method J r fds = (Inl e, closed)"
  shows "err_code e = (if rpc_method r \<in> set methods then INVALID_PARAMS_CODE else METHOD_NOT_FOUND_CODE)"
proof -
  have get: "err_code e = INVALID_PARAMS_CODE"
    if "(case params_value r of JNull \<Rightarrow> Inr \<lparr>gp_vm_id = None\<rparr> | JObject _ \<Rightarrow> params_parse de_GetParams r
        | _ \<Rightarrow> Inl (invalid_params (Text m))) = Inl e" for m
    using that by (auto dest: params_parse_code split: json.splits)
  consider "rpc_method r = ''softnet.initialize''" | "rpc_method r = ''softnet.policy.get''"
    | "rpc_method r = ''softnet.policy.set''" | "rpc_method r \<notin> set methods" by (auto simp: methods_def)
  then show ?thesis
  proof cases
    case 1
    then show ?thesis
      using assms by (auto simp: parse_method_def methods_def dest: params_parse_code parse_initialize_code split: sum.split_asm)
  next
    case 2
    then show ?thesis
      using assms by (auto simp: parse_method_def methods_def error_iffs dest: get parse_vm_id_code)
  next
    case 3
    then show ?thesis
      using assms by (auto simp: parse_method_def methods_def error_iffs
          dest: params_parse_code parse_vm_id_code parse_policy_code split: prod.splits)
  next
    case 4
    then show ?thesis using assms by (auto simp: parse_method_def methods_def rpc_error_def)
  qed
qed

section \<open>Answering a sequence of frames\<close>

text \<open>The identifier a response has to carry: that of the request, if it can be read.\<close>

definition frame_id :: "('n, 'z) control_ops_scheme \<Rightarrow> Frame \<Rightarrow> Id" where
  "frame_id J frame =
     (case frame_line frame of
        Inl _ \<Rightarrow> IdNull
      | Inr line \<Rightarrow> (case json_from_str J line of None \<Rightarrow> IdNull | Some v \<Rightarrow> recover_id v))"

fun serve ::
  "('n, 'z) control_ops_scheme \<Rightarrow> ('s \<Rightarrow> 'n Request \<Rightarrow> ('n CallError + Reply) option \<times> 's) \<Rightarrow> 's \<Rightarrow> Frame list \<Rightarrow>
   'n Response option list \<times> 's \<times> int list" where
  "serve J call s [] = ([], s, [])"
| "serve J call s (frame # frames) =
     (case control_answer J call s frame of
        (resp, s, closed) \<Rightarrow>
          (case serve J call s frames of (resps, s, closed') \<Rightarrow> (resp # resps, s, closed @ closed')))"

lemma transport_send_ok:
  "fst (os_write_all os (ct_socket ct) msg) = None \<Longrightarrow> fst (os_write_all os (ct_socket ct) [newline]) = None \<Longrightarrow>
   transport_send os ct msg = (Inr (), msg @ [newline])"
  by (auto simp: transport_send_def split: prod.splits option.splits)

lemma control_run_serve:
  assumes "\<And>fd msg. fst (os_write_all os fd msg) = None" and "\<And>r. to_vec J r \<noteq> None"
  shows "read_frames C n ct recvs = (frames, ct', recvs', []) \<Longrightarrow> length frames = n \<Longrightarrow>
    serve J call s frames = (map Some resps, s', closed) \<Longrightarrow>
    control_run J C os call (replicate n SendReady) ct recvs s =
      (Inr (), s', concat (map (\<lambda>r. the (to_vec J r) @ [newline]) resps), closed)"
proof (induction n arbitrary: ct recvs s frames resps closed)
  case (Suc n)
  obtain frame rest recvs1 ct1 frames1 where nx: "transport_next C ct recvs = (NextFrame frame rest recvs1, ct1, [])"
    and more: "read_frames C n ct1 recvs1 = (frames1, ct', recvs', [])" and frames: "frames = frame # frames1" "length frames1 = n"
    using Suc.prems(1,2) by (auto split: prod.split_asm next_result.split_asm)
  obtain r s1 closed1 resps1 closed2 where answer: "control_answer J call s frame = (Some r, s1, closed1)"
    and rest: "serve J call s1 frames1 = (map Some resps1, s', closed2)" and eqs: "resps = r # resps1" "closed = closed1 @ closed2"
    using Suc.prems(3) unfolding frames(1) by (cases resps) (auto split: prod.split_asm)
  obtain b where b: "to_vec J r = Some b" using assms(2) by blast
  show ?case
    using Suc.IH[OF more frames(2) rest] nx answer b transport_send_ok[of os ct1 b] assms(1) eqs by simp
qed simp

context control_api
begin

lemma Control_parse_exact:
  "Control_parse J frame =
     (case frame_line frame of
        Inl e \<Rightarrow> (Inl (error_response IdNull PARSE_ERROR_CODE (FrameText e)), frame_fds frame)
      | Inr line \<Rightarrow>
          (case json_from_str J line of
             None \<Rightarrow> (Inl (error_response IdNull PARSE_ERROR_CODE (Text ''invalid JSON-RPC frame'')), frame_fds frame)
           | Some v \<Rightarrow>
               (case json_request v of
                  None \<Rightarrow> (Inl (error_response (recover_id v) INVALID_REQUEST_CODE (Text ''invalid JSON-RPC request'')),
                           frame_fds frame)
                | Some r \<Rightarrow>
                    (case parse_method J r (frame_fds frame) of
                       (Inl e, closed) \<Rightarrow> (Inl (response (recover_id v) (Inl e)), closed)
                     | (Inr parsed, closed) \<Rightarrow> (Inr (recover_id v, parsed), closed)))))"
  by (auto simp: Control_parse_def parse_request_exact map_err_def and_then_def dest!: json_request_id
      split: sum.splits option.splits prod.splits)

lemma answer_id: "control_answer J call s frame = (Some r, s', closed) \<Longrightarrow> resp_id r = frame_id J frame"
  by (auto simp: control_answer_def Control_parse_exact frame_id_def error_response_def response_def
      split: sum.split_asm option.split_asm prod.split_asm)

lemma serve_ids:
  "serve J call s frames = (map Some resps, s', closed) \<Longrightarrow> map resp_id resps = map (frame_id J) frames"
proof (induction frames arbitrary: s resps closed)
  case (Cons frame frames)
  then obtain r resps' s1 closed' closed1 where "resps = r # resps'" "control_answer J call s frame = (Some r, s1, closed1)"
    "serve J call s1 frames = (map Some resps', s', closed')"
    by (cases resps) (auto split: prod.split_asm)
  then show ?case using Cons.IH answer_id by auto
qed simp

end

lemma serve_total:
  assumes "\<And>s r. fst (call s r) \<noteq> None"
  shows "\<exists>resps s' closed. serve J call s frames = (map Some resps, s', closed)"
proof (induction frames arbitrary: s)
  case (Cons frame frames)
  have "\<exists>r s1 closed1. control_answer J call s frame = (Some r, s1, closed1)"
  proof (cases "fst (Control_parse J frame)")
    case (Inr p)
    obtain y s1 where "call s (snd p) = (Some y, s1)" using assms[of s "snd p"] by (cases "call s (snd p)") auto
    with Inr show ?thesis by (auto simp: control_answer_def split: prod.splits sum.splits)
  qed (auto simp: control_answer_def split: prod.splits)
  then obtain r s1 closed1 where a: "control_answer J call s frame = (Some r, s1, closed1)" by blast
  from Cons obtain resps s' closed where "serve J call s1 frames = (map Some resps, s', closed)" by blast
  with a show ?case by (auto intro: exI[of _ "r # resps"])
qed auto

section \<open>A reference instance\<close>

text \<open>A reader of a part of JSON: no spaces, escapes, signs or fractions.\<close>

fun ref_value :: "nat \<Rightarrow> string \<Rightarrow> (json \<times> string) option"
  and ref_elements :: "nat \<Rightarrow> string \<Rightarrow> (json list \<times> string) option"
  and ref_members :: "nat \<Rightarrow> string \<Rightarrow> ((string \<times> json) list \<times> string) option" where
  "ref_value 0 s = None"
| "ref_value (Suc n) s =
     (case s of
        [] \<Rightarrow> None
      | c # cs \<Rightarrow>
          if c = CHR 0x22 then map_option (\<lambda>(text, rest). (JString text, rest)) (split_once (CHR 0x22) cs)
          else if c = CHR ''['' then map_option (\<lambda>(vs, rest). (JArray vs, rest)) (ref_elements n cs)
          else if c = CHR ''{'' then map_option (\<lambda>(ms, rest). (JObject ms, rest)) (ref_members n cs)
          else if is_ascii_digit c
          then Some (case uint_from_str 18446744073709551615 (takeWhile is_ascii_digit s) of
                       Inr k \<Rightarrow> JNumber (U64 (of_nat k)) | Inl _ \<Rightarrow> JNumber OtherNumber, dropWhile is_ascii_digit s)
          else map_option (\<lambda>rest. (JNull, rest)) (lit ''null'' s))"
| "ref_elements 0 s = None"
| "ref_elements (Suc n) s =
     (case lit '']'' s of
        Some rest \<Rightarrow> Some ([], rest)
      | None \<Rightarrow> do {
          (v, s) \<leftarrow> ref_value n s;
          (vs, rest) \<leftarrow> (case lit '','' s of Some s \<Rightarrow> ref_elements n s | None \<Rightarrow> map_option (Pair []) (lit '']'' s));
          Some (v # vs, rest)
        })"
| "ref_members 0 s = None"
| "ref_members (Suc n) s =
     (case lit ''}'' s of
        Some rest \<Rightarrow> Some ([], rest)
      | None \<Rightarrow> do {
          s \<leftarrow> lit [CHR 0x22] s;
          (key, s) \<leftarrow> split_once (CHR 0x22) s;
          s \<leftarrow> lit '':'' s;
          (v, s) \<leftarrow> ref_value n s;
          (ms, rest) \<leftarrow> (case lit '','' s of Some s \<Rightarrow> ref_members n s | None \<Rightarrow> map_option (Pair []) (lit ''}'' s));
          Some ((key, v) # ms, rest)
        })"

definition ref_json_from_str :: "string \<Rightarrow> json option" where
  "ref_json_from_str s = (case ref_value (Suc (length s)) s of Some (v, []) \<Rightarrow> Some v | _ \<Rightarrow> None)"

definition join_texts :: "string list \<Rightarrow> string" where
  "join_texts texts = concat (case texts of [] \<Rightarrow> [] | t # ts \<Rightarrow> t # map (\<lambda>t. '','' @ t) ts)"

definition quoted :: "string \<Rightarrow> string" where
  "quoted s = [CHR 0x22] @ s @ [CHR 0x22]"

fun ref_json_text :: "json \<Rightarrow> string" where
  "ref_json_text JNull = ''null''"
| "ref_json_text (JBool b) = (if b then ''true'' else ''false'')"
| "ref_json_text (JNumber n) = (case n of U64 k \<Rightarrow> show_nat (unat k) | OtherNumber \<Rightarrow> ''0.5'')"
| "ref_json_text (JString s) = quoted s"
| "ref_json_text (JArray vs) = ''['' @ join_texts (map ref_json_text vs) @ '']''"
| "ref_json_text (JObject ms) = ''{'' @ join_texts (map (\<lambda>(key, v). quoted key @ '':'' @ ref_json_text v) ms) @ ''}''"

definition code_number :: "error_code \<Rightarrow> nat" where
  "code_number code =
     (case code of
        PARSE_ERROR_CODE \<Rightarrow> 32700
      | INVALID_REQUEST_CODE \<Rightarrow> 32600
      | METHOD_NOT_FOUND_CODE \<Rightarrow> 32601
      | INVALID_PARAMS_CODE \<Rightarrow> 32602
      | CALL_EXECUTION_FAILED_CODE \<Rightarrow> 32000)"

definition ref_response_text :: "string Response \<Rightarrow> string" where
  "ref_response_text r =
     ''{'' @ quoted ''id'' @ '':'' @ (case resp_id r of IdNull \<Rightarrow> ''null'' | IdNumber n \<Rightarrow> show_nat (unat n) | IdStr s \<Rightarrow> quoted s) @
     (case resp_payload r of
        Inl e \<Rightarrow> '','' @ quoted ''code'' @ '':-'' @ show_nat (code_number (err_code e))
      | Inr v \<Rightarrow> '','' @ quoted ''result'' @ '':'' @ ref_json_text v) @ ''}''"

definition to_bytes :: "string \<Rightarrow> bytes" where
  "to_bytes s = map (\<lambda>c. of_nat (of_char c)) s"

definition ref_mac_from_str :: "string \<Rightarrow> mac option" where
  "ref_mac_from_str s =
     (case collect_results (map (uint_from_str 99) (split_on (CHR '':'') s)) of
        Inr ns \<Rightarrow> if length ns = 6 then Some (map of_nat ns) else None
      | Inl _ \<Rightarrow> None)"

definition ref_control :: "string control_ops" where
  "ref_control =
     \<lparr>net_from_str = ref_from_str, net_to_string = ref_to_string, net_default = Ipv4Net 0 0,
      net_from_addr = (\<lambda>a. Ipv4Net a 32), net_trunc = ref_trunc, net_contains = ref_contains,
      json_from_str = ref_json_from_str,
      request_from_str = (\<lambda>line. case ref_json_from_str line of Some (JObject members) \<Rightarrow> envelope members | _ \<Rightarrow> None),
      uuid_from_str = (\<lambda>s. case uint_from_str (2 ^ 128 - 1) s of Inr n \<Rightarrow> Some (of_nat n) | Inl _ \<Rightarrow> None),
      uuid_to_string = (\<lambda>u. show_nat (unat u)),
      mac_from_str = ref_mac_from_str,
      mac_to_string = (\<lambda>mac. concat (map (\<lambda>b. show_nat (unat b)) mac)),
      from_ascii = Some,
      to_vec = (\<lambda>r. Some (filter (\<lambda>b. b \<noteq> newline) (to_bytes (ref_response_text r))))\<rparr>"

interpretation ref_control_api: control_api ref_control
proof -
  have net: "ipnet_api ref_control"
    by (rule ipnet_api_cong[OF ref_net.ipnet_api_axioms]) (simp_all add: ref_control_def ref_ipnet_def)
  have "uuid_from_str ref_control (uuid_to_string ref_control u) = Some u" for u
  proof -
    have "unat u < 2 ^ LENGTH(128)" by (rule unsigned_less)
    then have "unat u \<le> 2 ^ 128 - 1" by simp
    then show ?thesis by (simp add: ref_control_def uint_from_str_show_nat)
  qed
  with net show "control_api ref_control"
    by (intro control_api.intro control_api_axioms.intro) (auto simp: ref_control_def)
qed

end
