(* ===== verification/Control_Properties.thy ===== *)
theory Control_Properties
  imports Manager_Properties Control
begin

text \<open>
  Properties of the control protocol: what requests it lets through, how it reports errors, how it
  serves a stream of requests, and that replies can be sent back as requests.
\<close>

section \<open>The manager behind the protocol\<close>

text \<open>A call of the control task, answered by the manager's dispatch.\<close>

definition manager_call ::
  "(uuid \<Rightarrow> ('p, 'm, 'n, 'msg, 'z, 'c, 'rq, 'rs) env) \<Rightarrow> ('n, 'z, 'c, 'rq, 'rs) init_world \<Rightarrow> Instant \<Rightarrow>
   ('m, 'n, 'c) Manager \<Rightarrow> 'n Request \<Rightarrow> ('n CallError + Reply) option \<times> ('m, 'n, 'c) Manager" where
  "manager_call envs W now mgr request =
     (case dispatch envs W now mgr request of (_, mgr, reply, _) \<Rightarrow> (Some reply, mgr))"

section \<open>Lemmas\<close>

lemma dedup_length: "length (dedup xs) \<le> length xs"
  by (induction xs rule: dedup.induct) auto

lemma normalize_policy_ok:
  assumes "ipnet_api I" and "policy_ok allow block"
  shows "policy_ok (normalize_rules I allow) (normalize_rules I block)"
proof -
  have "length (normalize_rules I rs) \<le> length rs" for rs
    unfolding normalize_rules_def using dedup_length by (metis length_map length_sort)
  then have "length (normalize_rules I allow) + length (normalize_rules I block) \<le> MAX_RULES"
    using assms(2) add_mono le_trans unfolding policy_ok_def by blast
  then show ?thesis
    using assms(2) ipnet_api.Rule_normalized_wf[OF assms(1)] by (auto simp: policy_ok_def normalize_set list_all_iff)
qed

lemma hm_insert_same: "hm_get m k = Some v \<Longrightarrow> hm_insert k v m = m"
  unfolding hm_get_def hm_insert_def by (induction m) (auto split: if_splits)

lemma policy_set_again:
  assumes "ipnet_api (env_policy env)" and "policy_set env p allow block now = (pol, q)"
  shows "pol_allow pol = normalize_rules (env_policy env) allow" "pol_block pol = normalize_rules (env_policy env) block"
    "policy_set env q (pol_allow pol) (pol_block pol) later = (pol, q)"
proof -
  have "px_allow q = normalize_rules (env_policy env) allow" "px_block q = normalize_rules (env_policy env) block"
    "pol = policy_get env q"
    using assms(2) by (auto simp: policy_set_def Let_def split: if_splits)
  then show "pol_allow pol = normalize_rules (env_policy env) allow" "pol_block pol = normalize_rules (env_policy env) block"
    "policy_set env q (pol_allow pol) (pol_block pol) later = (pol, q)"
    using normalize_idem[OF assms(1)] by (simp_all add: policy_set_def policy_get_def Let_def)
qed

lemma error_object: "err_code e = code \<Longrightarrow> \<exists>message. e = \<lparr>err_code = code, err_message = message\<rparr>"
  by (cases e) simp

text \<open>A policy change that is answered with a policy has reached a forwarding task.\<close>

lemma dispatch_set_target:
  assumes "dispatch envs W now mgr (SetPolicy target allow block) = (r, mgr', Inr reply, closed)"
    and "proxy_handle mgr target = Inr vm_id"
  obtains p pol q where "hm_get (proxy_tasks mgr) vm_id = Some (Forwarding p)"
    "policy_set (envs vm_id) p allow block now = (pol, q)" "reply = PolicyReply pol" "r = Inr ()" "closed = []"
    "mgr' = mgr\<lparr>proxy_tasks := hm_insert vm_id (Forwarding q) (proxy_tasks mgr)\<rparr>"
  using assms
  by (auto simp: dispatch_def proxy_request_def on_command_def ok_or_def and_then_def map_err_def Let_def
      split: option.splits task.splits prod.splits)

lemma dispatch_set_reply:
  assumes "dispatch envs W now mgr (SetPolicy (Some vm_id) allow block) = (r, mgr', Inr (PolicyReply pol), closed)"
  obtains p q where "vm_id \<in> set (proxy_handles mgr)" "hm_get (proxy_tasks mgr) vm_id = Some (Forwarding p)"
    "policy_set (envs vm_id) p allow block now = (pol, q)" "r = Inr ()" "closed = []"
    "mgr' = mgr\<lparr>proxy_tasks := hm_insert vm_id (Forwarding q) (proxy_tasks mgr)\<rparr>"
proof -
  have handle: "vm_id \<in> set (proxy_handles mgr)"
    using assms by (auto simp: dispatch_def proxy_handle_def ok_or_def and_then_def split: if_splits)
  then have "proxy_handle mgr (Some vm_id) = Inr vm_id" by (simp add: proxy_handle_def ok_or_def and_then_def)
  from assms this show thesis by (rule dispatch_set_target) (use that[OF handle] in simp)
qed

lemma dispatch_set_forwarding:
  assumes "vm_id \<in> set (proxy_handles mgr)" "hm_get (proxy_tasks mgr) vm_id = Some (Forwarding p)"
    "policy_set (envs vm_id) p allow block now = (pol, q)"
  shows "dispatch envs W now mgr (SetPolicy (Some vm_id) allow block) =
    (Inr (), mgr\<lparr>proxy_tasks := hm_insert vm_id (Forwarding q) (proxy_tasks mgr)\<rparr>, Inr (PolicyReply pol), [])"
  using assms by (simp add: dispatch_def proxy_handle_def proxy_request_def on_command_def ok_or_def and_then_def map_err_def)

context control_api
begin

lemma printed_rules_parse:
  "list_all Rule_wf rs \<Longrightarrow> map (Rule_parse J) (map (Rule_to_string J) rs) = map Inr rs"
  using Rule_roundtrip by (induction rs) simp_all

lemma printed_policy_parse:
  "policy_ok allow block \<Longrightarrow>
   parse_policy J (map (Rule_to_string J) allow) (map (Rule_to_string J) block) = Inr (allow, block)"
  unfolding parse_policy_Inr using printed_rules_parse[of allow] printed_rules_parse[of block] by (simp add: policy_ok_def)

text \<open>The parameters of a policy change with printed rules.\<close>

lemma set_params_parse:
  assumes "policy_ok allow block" and "rpc_method r = ''softnet.policy.set''"
    and "rpc_params r = Some (JObject [(''vmId'', JString (uuid_to_string J vm_id)),
      (''allow'', JArray (map (\<lambda>x. JString (Rule_to_string J x)) allow)),
      (''block'', JArray (map (\<lambda>x. JString (Rule_to_string J x)) block))])"
  shows "parse_method J r fds = (Inr (SetPolicy (Some vm_id) allow block), fds)"
proof -
  have strings: "de_vec de_string (JArray (map (\<lambda>x. JString (f x)) xs)) = Some (map f xs)" for f :: "Rule \<Rightarrow> string" and xs
    by (simp add: de_vec_def de_string_def comp_def)
  have "(params_parse de_SetParams r :: 'n ErrorObject + SetParams) = Inr \<lparr>sp_vm_id = Some (uuid_to_string J vm_id),
      sp_allow = map (Rule_to_string J) allow, sp_block = map (Rule_to_string J) block\<rparr>"
    using assms(3) by (simp add: params_parse_def params_value_def de_SetParams_def struct_fields_def de_field_def
        de_option_string_def strings ok_or_def)
  then show ?thesis
    using assms(2) printed_policy_parse[OF assms(1)] uuid_law
    by (simp add: parse_method_def parse_vm_id_def std_simps)
qed

lemmas parse_method_error = parse_method_cases[of _ _ "Inl e" for e, simplified]

lemmas parse_method_ok = parse_method_cases[of _ _ "Inr request" for request, simplified]

end

section \<open>Sample requests\<close>

definition sample_initialize :: string where
  \<open>sample_initialize = ''{"jsonrpc":"2.0","id":1,"method":"softnet.initialize","params":{"vms":[{"vmMacAddress":"2:0:0:0:0:9","block":["0.0.0.0/0"]}]}}''\<close>

definition sample_get :: string where
  \<open>sample_get = ''{"jsonrpc":"2.0","id":7,"method":"softnet.policy.get"}''\<close>

definition sample_unknown :: string where
  \<open>sample_unknown = ''{"jsonrpc":"2.0","id":"a","method":"nope"}''\<close>

definition from_bytes :: "bytes \<Rightarrow> string" where
  "from_bytes bs = map (\<lambda>b. char_of (unat b)) bs"

section \<open>Properties\<close>

text \<open>
  C11: every request the protocol lets through is well formed, and descriptors are never lost. The
  request has an identifier; an initialization has between one and five VMs, each with the
  descriptor at its place among those of the frame; every list of rules has at most 4096 rules, all
  of them well formed. The descriptors of the frame are in the request or closed, never both; those
  of a rejected frame are all closed.
\<close>

theorem control_request_typed:
  assumes "control_api J" and "Control_parse J frame = (result, closed)"
  shows "case result of
      Inl _ \<Rightarrow> closed = frame_fds frame
    | Inr (req_id, request) \<Rightarrow>
        req_id \<noteq> IdNull \<and> request_ok (frame_fds frame) request \<and>
        (request_fds request = frame_fds frame \<and> closed = [] \<or> request_fds request = [] \<and> closed = frame_fds frame)"
  using assms(2) unfolding control_api.Control_parse_exact[OF assms(1)]
  by (auto dest!: json_request_id control_api.parse_method_error[OF assms(1)] control_api.parse_method_ok[OF assms(1)]
      split: sum.split_asm option.split_asm prod.split_asm)

theorem control_request_typed_witness:
  "\<exists>vms. Control_parse ref_control \<lparr>frame_line = Inr sample_initialize, frame_fds = [7]\<rparr> =
     (Inr (IdNumber 1, Initialize NetNat vms), []) \<and> map vm_fd vms = [7]"
proof -
  let ?frame = "\<lparr>frame_line = Inr sample_initialize, frame_fds = [7]\<rparr> :: Frame"
  have "case fst (Control_parse ref_control ?frame) of
      Inr p \<Rightarrow> fst p = IdNumber 1 \<and> (case snd p of Initialize net_type _ \<Rightarrow> net_type = NetNat | _ \<Rightarrow> False) | Inl _ \<Rightarrow> False"
    by code_simp
  moreover obtain result closed where parse: "Control_parse ref_control ?frame = (result, closed)" by (rule prod.exhaust)
  ultimately obtain p where p: "result = Inr p" "fst p = IdNumber 1"
    "case snd p of Initialize net_type _ \<Rightarrow> net_type = NetNat | _ \<Rightarrow> False" by (cases result) auto
  then obtain vms where "snd p = Initialize NetNat vms" by (cases "snd p") auto
  with parse p(1,2) have parsed: "Control_parse ref_control ?frame = (Inr (IdNumber 1, Initialize NetNat vms), closed)"
    by (cases p) simp
  from control_request_typed[OF ref_control_api.control_api_axioms parsed] show ?thesis
    using parsed by (auto simp: request_fds_def request_ok_def)
qed

text \<open>
  C22: a request that is not let through is answered with an error that says why and carries its
  identifier. A broken frame and a line that is not JSON give a parse error without an identifier; a
  value that is not a JSON-RPC request with an identifier, an invalid request; a method other than
  the three, method not found; anything else, invalid parameters.
\<close>

theorem control_error_exact:
  assumes "control_api J" and "Control_parse J frame = (Inl resp, closed)"
  shows "resp_id resp = frame_id J frame \<and>
    (\<exists>message. resp_payload resp = Inl \<lparr>
       err_code =
         (case frame_line frame of
            Inl _ \<Rightarrow> PARSE_ERROR_CODE
          | Inr line \<Rightarrow>
              (case json_from_str J line of
                 None \<Rightarrow> PARSE_ERROR_CODE
               | Some v \<Rightarrow>
                   (case json_request v of
                      None \<Rightarrow> INVALID_REQUEST_CODE
                    | Some r \<Rightarrow> if rpc_method r \<in> set methods then INVALID_PARAMS_CODE else METHOD_NOT_FOUND_CODE))),
       err_message = message\<rparr>)"
  using assms(2) unfolding control_api.Control_parse_exact[OF assms(1)]
  by (auto simp: frame_id_def error_response_def response_def rpc_error_def dest!: parse_method_code
      intro: error_object split: sum.split_asm option.split_asm prod.split_asm)

theorem control_error_exact_witness:
  "\<exists>message closed. Control_parse ref_control \<lparr>frame_line = Inr sample_unknown, frame_fds = [7]\<rparr> =
     (Inl \<lparr>resp_id = IdStr ''a'', resp_payload = Inl \<lparr>err_code = METHOD_NOT_FOUND_CODE, err_message = message\<rparr>\<rparr>, closed)"
proof -
  let ?frame = "\<lparr>frame_line = Inr sample_unknown, frame_fds = [7]\<rparr> :: Frame"
  have "case fst (Control_parse ref_control ?frame) of Inl _ \<Rightarrow> True | Inr _ \<Rightarrow> False" by code_simp
  then obtain resp closed where parsed: "Control_parse ref_control ?frame = (Inl resp, closed)"
    by (cases "Control_parse ref_control ?frame") (auto split: sum.splits)
  have "frame_id ref_control ?frame = IdStr ''a''"
    "(case json_from_str ref_control sample_unknown of
        None \<Rightarrow> PARSE_ERROR_CODE
      | Some v \<Rightarrow> (case json_request v of
          None \<Rightarrow> INVALID_REQUEST_CODE
        | Some r \<Rightarrow> if rpc_method r \<in> set methods then INVALID_PARAMS_CODE else METHOD_NOT_FOUND_CODE)) =
      METHOD_NOT_FOUND_CODE"
    by code_simp+
  with control_error_exact[OF ref_control_api.control_api_axioms parsed] parsed show ?thesis
    by (cases resp) auto
qed

text \<open>
  C20: a client that sends requests in any chunks gets one response to each, in order. Every response
  carries the identifier of its request, is what the protocol answers after the requests before it,
  and is written on a line of its own.
\<close>

theorem control_session:
  assumes "control_api J" and "lines_codec_api C fits utf8"
    and "list_all (\<lambda>m. newline \<notin> set m \<and> length m \<le> MAX_REQUEST_BYTES \<and> utf8 (strip_cr m) = Some (text m)) (m # ms)"
    and "list_all (\<lambda>c. fst c \<noteq> []) chunks" and "fds_accepted [] chunks" and "buffered ct = []"
    and "stream_of [] chunks = concat (map (\<lambda>m. m @ [newline]) (m # ms))"
    and "\<And>s r. fst (call s r) \<noteq> None" and "\<And>r. to_vec J r \<noteq> None" and "\<And>fd msg. fst (os_write_all os fd msg) = None"
  shows "\<exists>responses s' closed.
    serve J call s (\<lparr>frame_line = Inr (text m), frame_fds = fds_of chunks\<rparr> #
        map (\<lambda>m. \<lparr>frame_line = Inr (text m), frame_fds = []\<rparr>) ms) = (map Some responses, s', closed) \<and>
    control_run J C os call (replicate (length (m # ms)) SendReady) ct (map Inr chunks @ recvs) s =
      (Inr (), s', concat (map (\<lambda>r. the (to_vec J r) @ [newline]) responses), closed) \<and>
    map resp_id responses = map (\<lambda>m. case json_from_str J (text m) of None \<Rightarrow> IdNull | Some v \<Rightarrow> recover_id v) (m # ms) \<and>
    list_all (\<lambda>r. newline \<notin> set (the (to_vec J r))) responses"
proof -
  let ?frames = "\<lparr>frame_line = Inr (text m), frame_fds = fds_of chunks\<rparr> #
        map (\<lambda>m. \<lparr>frame_line = Inr (text m), frame_fds = []\<rparr>) ms"
  obtain responses s' closed where served: "serve J call s ?frames = (map Some responses, s', closed)"
    using serve_total[of call J s ?frames] assms(8) by blast
  have frames: "read_frames C (length (m # ms)) ct (map Inr chunks @ recvs) = (?frames, ct\<lparr>buffered := []\<rparr>, recvs, [])"
    using lines_codec_api.read_stream[OF assms(2,3,4), of ct recvs] assms(5-7) by (simp only: list.case)
  have "control_run J C os call (replicate (length (m # ms)) SendReady) ct (map Inr chunks @ recvs) s =
      (Inr (), s', concat (map (\<lambda>r. the (to_vec J r) @ [newline]) responses), closed)"
    by (rule control_run_serve[OF assms(10,9) frames _ served]) simp
  moreover have "map resp_id responses = map (\<lambda>m. case json_from_str J (text m) of None \<Rightarrow> IdNull | Some v \<Rightarrow> recover_id v) (m # ms)"
    using control_api.serve_ids[OF assms(1) served] by (simp add: frame_id_def)
  moreover have "list_all (\<lambda>r. newline \<notin> set (the (to_vec J r))) responses"
    using control_api.one_line[OF assms(1)] assms(9) by (fastforce simp: list_all_iff)
  ultimately show ?thesis using served by blast
qed

theorem control_session_witness:
  "\<exists>responses s' closed. control_run ref_control ref_codec sample_control_os (manager_call (\<lambda>_. sample_env) sample_world 7)
     [SendReady, SendReady] \<lparr>ct_socket = 3, buffered = []\<rparr>
     [Inr (take 9 (to_bytes sample_unknown), []),
      Inr (drop 9 (to_bytes sample_unknown) @ [newline] @ to_bytes sample_get @ [newline], [])] sample_manager =
     (Inr (), s', concat (map (\<lambda>r. the (to_vec ref_control r) @ [newline]) responses), closed) \<and>
   map resp_id responses = [IdStr ''a'', IdNumber 7]"
proof -
  let ?m = "to_bytes sample_unknown" and ?ms = "[to_bytes sample_get]"
  let ?chunks = "[(take 9 ?m, []), (drop 9 ?m @ [newline] @ to_bytes sample_get @ [newline], [])] :: chunk list"
  let ?call = "manager_call (\<lambda>_. sample_env) sample_world 7"
  have msgs: "list_all (\<lambda>m. newline \<notin> set m \<and> length m \<le> MAX_REQUEST_BYTES \<and> ref_utf8 (strip_cr m) = Some (from_bytes m)) (?m # ?ms)"
    by code_simp
  have chunks: "list_all (\<lambda>c. fst c \<noteq> []) ?chunks" "fds_accepted [] ?chunks"
    "stream_of [] ?chunks = concat (map (\<lambda>m. m @ [newline]) (?m # ?ms))"
    by code_simp+
  have ids: "map (\<lambda>m. case json_from_str ref_control (from_bytes m) of None \<Rightarrow> IdNull | Some v \<Rightarrow> recover_id v) (?m # ?ms) =
      [IdStr ''a'', IdNumber 7]" by code_simp
  have env: "fst (?call s r) \<noteq> None" "to_vec ref_control resp \<noteq> None" "fst (os_write_all sample_control_os fd msg) = None"
    for s r resp fd msg
    by (simp_all add: manager_call_def ref_control_def sample_control_os_def split: prod.splits)
  have turns: "replicate (length (?m # ?ms)) SendReady = [SendReady, SendReady]"
    "map Inr ?chunks @ [] = [Inr (take 9 ?m, []), Inr (drop 9 ?m @ [newline] @ to_bytes sample_get @ [newline], [])]"
    by (simp_all add: numeral_2_eq_2)
  have buf: "buffered \<lparr>ct_socket = 3, buffered = []\<rparr> = []" by simp
  from control_session[where call = ?call and recvs = "[]" and s = sample_manager, OF ref_control_api.control_api_axioms
      ref_lines.lines_codec_api_axioms msgs chunks(1,2) buf chunks(3) env]
  show ?thesis
    unfolding ids turns by (elim exE conjE) (rule exI, rule exI, rule exI, rule conjI, assumption, assumption)
qed

text \<open>
  C21: the policy in a reply can be sent back as it is. After a policy change of at most 4096
  well-formed rules, a change request with the rules of the reply is accepted, and carrying it out
  leaves the manager, and so every flow of the VM, as it is and gives the same reply.
\<close>

theorem policy_reply_replay:
  assumes "control_api J" and "policy_api (env_policy (envs vm_id)) pm_inv" and "policy_ok allow block"
    and "dispatch envs W now mgr (SetPolicy (Some vm_id) allow block) = (r, mgr', Inr (PolicyReply pol), closed)"
    and "json_get (reply_json J (PolicyReply pol)) ''allow'' = Some allow_json"
    and "json_get (reply_json J (PolicyReply pol)) ''block'' = Some block_json"
    and "rpc_method request = ''softnet.policy.set''"
    and "rpc_params request =
      Some (JObject [(''vmId'', JString (uuid_to_string J vm_id)), (''allow'', allow_json), (''block'', block_json)])"
  shows "\<exists>set. parse_method J request fds = (Inr set, fds) \<and>
    dispatch envs W' later mgr' set = (Inr (), mgr', Inr (PolicyReply pol), [])"
proof -
  have api: "ipnet_api (env_policy (envs vm_id))" using assms(2) by (simp add: policy_api_def)
  obtain p q where d: "vm_id \<in> set (proxy_handles mgr)" "hm_get (proxy_tasks mgr) vm_id = Some (Forwarding p)"
    "policy_set (envs vm_id) p allow block now = (pol, q)"
    "mgr' = mgr\<lparr>proxy_tasks := hm_insert vm_id (Forwarding q) (proxy_tasks mgr)\<rparr>"
    by (rule dispatch_set_reply[OF assms(4)])
  note again = policy_set_again[OF api d(3)]
  have ok: "policy_ok (pol_allow pol) (pol_block pol)"
    using normalize_policy_ok[OF api assms(3)] again(1,2) by simp
  have "allow_json = JArray (map (\<lambda>x. JString (Rule_to_string J x)) (pol_allow pol))"
    "block_json = JArray (map (\<lambda>x. JString (Rule_to_string J x)) (pol_block pol))"
    using assms(5,6) by (simp_all add: reply_json_def json_get_def)
  then have "parse_method J request fds = (Inr (SetPolicy (Some vm_id) (pol_allow pol) (pol_block pol)), fds)"
    using control_api.set_params_parse[OF assms(1) ok assms(7), of vm_id fds] assms(8) by simp
  moreover have "hm_get (proxy_tasks mgr') vm_id = Some (Forwarding q)" "vm_id \<in> set (proxy_handles mgr')"
    using d(1,4) by (simp_all add: hm_get_insert)
  ultimately show ?thesis
    using dispatch_set_forwarding[of vm_id mgr' q envs "pol_allow pol" "pol_block pol" later pol q W']
      again(3)[of later] hm_insert_same[of "proxy_tasks mgr'" vm_id] by auto
qed

theorem policy_reply_replay_witness:
  "\<exists>pol mgr' request set. dispatch (\<lambda>_. sample_env) sample_world 7 sample_manager (SetPolicy (Some 1) [dns_only] [block_all]) =
     (Inr (), mgr', Inr (PolicyReply pol), []) \<and> parse_method ref_control request [] = (Inr set, []) \<and>
   dispatch (\<lambda>_. sample_env) sample_world 8 mgr' set = (Inr (), mgr', Inr (PolicyReply pol), [])"
proof -
  obtain p where p: "hm_get (proxy_tasks sample_manager) 1 = Some (Forwarding p)" using sample_manager_task by blast
  obtain pol q where "policy_set sample_env p [dns_only] [block_all] 7 = (pol, q)"
    by (cases "policy_set sample_env p [dns_only] [block_all] 7")
  then obtain mgr' where d: "dispatch (\<lambda>_. sample_env) sample_world 7 sample_manager (SetPolicy (Some 1) [dns_only] [block_all]) =
      (Inr (), mgr', Inr (PolicyReply pol), [])"
    using dispatch_set_forwarding[OF _ p, of "\<lambda>_. sample_env"] sample_manager_handle(2) by fastforce
  obtain a b where json: "json_get (reply_json ref_control (PolicyReply pol)) ''allow'' = Some a"
    "json_get (reply_json ref_control (PolicyReply pol)) ''block'' = Some b"
    by (simp add: reply_json_def json_get_def)
  have ok: "policy_ok [dns_only] [block_all]" by code_simp
  let ?request = "\<lparr>rpc_method = ''softnet.policy.set'', rpc_id = IdNumber 9, rpc_params =
      Some (JObject [(''vmId'', JString (uuid_to_string ref_control 1)), (''allow'', a), (''block'', b)])\<rparr>"
  from policy_reply_replay[OF ref_control_api.control_api_axioms sample_api ok d json, of ?request "[]"] d
  show ?thesis by fastforce
qed

end
