(* ===== verification/Main_Program.thy ===== *)
theory Main_Program
  imports Manager_Properties Control "HOL-Library.Sublist"
begin

text \<open>
  The program around the manager (\<open>src/main.rs\<close>): parsing of descriptors, becoming root through
  sudo, configuring bootpd, and running the manager until it ends or is interrupted. The answers of
  the system are a record; the calls on the system preferences are recorded in order.
\<close>

section \<open>Descriptors on the command line\<close>

datatype i32_error = I32Error int_error | NegOverflow

text \<open>\<open>FromStr\<close> of an \<open>i32\<close>: as for unsigned integers, with an optional minus.\<close>

definition i32_from_str :: "string \<Rightarrow> i32_error + int" where
  "i32_from_str s =
     (case s of
        c # cs \<Rightarrow>
          if c = CHR ''-'' \<and> cs \<noteq> []
          then (case parse_digits 2147483648 0 cs of
                  Inl e \<Rightarrow> Inl (if e = PosOverflow then NegOverflow else I32Error e)
                | Inr n \<Rightarrow> Inr (- int n))
          else and_then (map_err I32Error (uint_from_str 2147483647 s)) (\<lambda>n. Inr (int n))
      | [] \<Rightarrow> Inl (I32Error EmptyInt))"

datatype fd_error = InvalidFd i32_error | NegativeFd

definition parse_vm_fd :: "string \<Rightarrow> fd_error + int" where
  "parse_vm_fd s =
     and_then (map_err InvalidFd (i32_from_str s)) (\<lambda>vm_fd. if vm_fd < 0 then Inl NegativeFd else Inr vm_fd)"

section \<open>Configuring bootpd\<close>

datatype sc_call = ScLock | ScSetValue int bool | ScCommit | ScApply | ScUnlock

text \<open>Whether a call succeeds may depend on the calls before it.\<close>

type_synonym sc_answers = "sc_call list \<Rightarrow> sc_call \<Rightarrow> bool"

datatype bootpd_error = LockFailed | SetFailed | CommitFailed | ApplyFailed | UnlockFailed

text \<open>The steps between lock and unlock, up to the first that fails.\<close>

fun sc_steps ::
  "sc_answers \<Rightarrow> sc_call list \<Rightarrow> (sc_call \<times> bootpd_error) list \<Rightarrow> (bootpd_error + unit) \<times> sc_call list" where
  "sc_steps answers made [] = (Inr (), made)"
| "sc_steps answers made ((call, e) # steps) =
     (if answers made call then sc_steps answers (made @ [call]) steps else (Inl e, made @ [call]))"

definition configure_bootpd :: "sc_answers \<Rightarrow> u32 \<Rightarrow> (bootpd_error + unit) \<times> sc_call list" where
  "configure_bootpd answers lease_time =
     (if \<not> answers [] ScLock then (Inl LockFailed, [ScLock])
      else (let (result, made) = sc_steps answers [ScLock]
                  [(ScSetValue (sint lease_time) True, SetFailed), (ScCommit, CommitFailed), (ScApply, ApplyFailed)];
                unlocked = answers made ScUnlock
            in (and_then result (\<lambda>_. ensure unlocked UnlockFailed), made @ [ScUnlock])))"

section \<open>Starting up\<close>

record 'n Args =
  arg_vm_fd :: "int option"
  arg_control_fd :: "int option"
  arg_vm_mac_address :: "mac option"
  arg_vm_name :: "'n option"
  arg_vm_net_type :: NetType
  arg_bootpd_lease_time :: u32
  arg_user :: "string option"
  arg_group :: "string option"
  arg_allow :: "Rule list"
  arg_block :: "Rule list"
  arg_expose :: "ExposedPort list"
  arg_sudo_escalation_probing :: bool
  arg_sudo_escalation_done :: bool

text \<open>The constraints between the options that are declared with them.\<close>

definition args_ok :: "'n Args \<Rightarrow> bool" where
  "args_ok args \<longleftrightarrow>
     (arg_vm_fd args = None \<longrightarrow>
        arg_control_fd args \<noteq> None \<and> arg_vm_mac_address args = None \<and> arg_vm_name args = None \<and>
        arg_allow args = [] \<and> arg_block args = [] \<and> arg_expose args = []) \<and>
     (arg_vm_fd args \<noteq> None \<longrightarrow> arg_vm_mac_address args \<noteq> None)"

record main_world =
  mw_user_name :: "string option"
  mw_group_name :: "string option"
  mw_effective_uid :: nat
  mw_exe :: "string option"
  mw_command_line :: "string list"
  mw_run_sudo :: "string list \<Rightarrow> bool"
  mw_exec_sudo :: "string list \<Rightarrow> bool"
  mw_sc :: sc_answers
  mw_os :: control_os
  mw_signal :: "io_error + unit"

datatype main_error =
    UserNameUnresolved
  | GroupNameUnresolved
  | CurrentExePanicked
  | RootRequired
  | BootpdFailed bootpd_error
  | InvalidControlFd io_error
  | ControlFailed transport_error
  | SignalFailed io_error

text \<open>
  What starting up leads to: nothing more to do, replacing the process by sudo with the given
  arguments, or running a manager for the given user and group with a control connection. The path
  of the executable is unwrapped, and a process that cannot be replaced goes on to the error.
\<close>

datatype startup =
    ProbingOk
  | ExecSudo "string list"
  | Ready string string "Control option"

definition sudo_escalation_works :: "main_world \<Rightarrow> string \<Rightarrow> bool" where
  "sudo_escalation_works w exe =
     mw_run_sudo w ([''-n'', exe] @ mw_command_line w @ [''--sudo-escalation-probing''])"

definition escalation_arguments :: "main_world \<Rightarrow> string \<Rightarrow> string \<Rightarrow> string \<Rightarrow> string list" where
  "escalation_arguments w exe user_name group_name =
     [''--non-interactive'', ''--preserve-env=SENTRY_DSN,CIRRUS_SENTRY_TAGS'', exe] @ mw_command_line w @
     [''--sudo-escalation-done'', ''--user'', user_name, ''--group'', group_name]"

definition open_control ::
  "control_os \<Rightarrow> int option \<Rightarrow> (main_error + Control option) \<times> int list" where
  "open_control os control_fd =
     (case control_fd of
        None \<Rightarrow> (Inr None, [])
      | Some fd \<Rightarrow>
          (case os_getfd os fd of
             Inl e \<Rightarrow> (Inl (InvalidControlFd e), [])
           | Inr _ \<Rightarrow>
               (case Control_new os fd of
                  (Inl e, closed) \<Rightarrow> (Inl (ControlFailed e), closed)
                | (Inr control, closed) \<Rightarrow> (Inr (Some control), closed))))"

text \<open>Everything up to the creation of the manager, with the preference calls and closed descriptors.\<close>

definition start_main ::
  "main_world \<Rightarrow> 'n Args \<Rightarrow> (main_error + startup) \<times> sc_call list \<times> int list" where
  "start_main w args =
     (if arg_sudo_escalation_probing args then (Inr ProbingOk, [], [])
      else (case mw_user_name w of
              None \<Rightarrow> (Inl UserNameUnresolved, [], [])
            | Some current_user \<Rightarrow>
                (case mw_group_name w of
                   None \<Rightarrow> (Inl GroupNameUnresolved, [], [])
                 | Some current_group \<Rightarrow>
                     if mw_effective_uid w \<noteq> 0
                     then (case mw_exe w of
                             None \<Rightarrow> (Inl CurrentExePanicked, [], [])
                           | Some exe \<Rightarrow>
                               (let sudo_args = escalation_arguments w exe current_user current_group
                                in if sudo_escalation_works w exe \<and> \<not> arg_sudo_escalation_done args \<and> mw_exec_sudo w sudo_args
                                   then (Inr (ExecSudo sudo_args), [], [])
                                   else (Inl RootRequired, [], [])))
                     else (case configure_bootpd (mw_sc w) (arg_bootpd_lease_time args) of
                             (Inl e, calls) \<Rightarrow> (Inl (BootpdFailed e), calls, [])
                           | (Inr _, calls) \<Rightarrow>
                               (case open_control (mw_os w) (arg_control_fd args) of
                                  (Inl e, closed) \<Rightarrow> (Inl e, calls, closed)
                                | (Inr control, closed) \<Rightarrow>
                                    (case mw_signal w of
                                       Inl e \<Rightarrow> (Inl (SignalFailed e), calls,
                                         closed @ (case control of None \<Rightarrow> [] | Some c \<Rightarrow> [ct_socket (transport c)]))
                                     | Inr _ \<Rightarrow>
                                         (Inr (Ready (case arg_user args of None \<Rightarrow> current_user | Some u \<Rightarrow> u)
                                                 (case arg_group args of None \<Rightarrow> current_group | Some g \<Rightarrow> g) control),
                                          calls, closed)))))))"

section \<open>Running the manager\<close>

datatype 'n run_error = InitializeFailed "'n InitializationError" | RunFailed "'n manager_error"

text \<open>The batch of the command line: one VM, or none where only a control connection is given.\<close>

definition command_line_vm :: "'n Args \<Rightarrow> 'n VmConfig option" where
  "command_line_vm args =
     (case (arg_vm_fd args, arg_vm_mac_address args) of
        (Some fd, Some mac) \<Rightarrow>
          Some \<lparr>vm_fd = fd, cfg_mac_address = mac, cfg_name = arg_vm_name args, cfg_allow = arg_allow args,
                cfg_block = arg_block args, exposed_ports = arg_expose args\<rparr>
      | _ \<Rightarrow> None)"

text \<open>
  How the select between the manager and the interrupt can end: the initialization of the command
  line's VM fails; the run ends; or the interrupt arrives, in the middle of that initialization,
  while its worker still runs, or at any state of the run.
\<close>

inductive main_ends ::
  "(uuid \<Rightarrow> ('p, 'm, 'n, 'msg, 'z, 'c, 'rq, 'rs) env) \<Rightarrow> (('n, 'z, 'c, 'rq, 'rs) init_world \<Rightarrow> bool) \<Rightarrow>
   'n Args \<Rightarrow> ('m, 'n, 'c) Manager \<Rightarrow> 'n run_error + unit \<Rightarrow> ('m, 'n, 'c) Manager \<Rightarrow> bool"
  for envs worlds args mgr where
  initialize_failed: "command_line_vm args = Some vm \<Longrightarrow> worlds W \<Longrightarrow>
    initialize envs W mgr (arg_vm_net_type args) [vm] = (Inl e, mgr', closed) \<Longrightarrow>
    main_ends envs worlds args mgr (Inl (InitializeFailed e)) mgr'"
| initialize_interrupted: "command_line_vm args = Some vm \<Longrightarrow> worlds W \<Longrightarrow>
    initialize_begin envs W (initialized mgr) (arg_vm_net_type args) [vm] = (Inr plan, closed) \<Longrightarrow>
    main_ends envs worlds args mgr (Inr ()) (register_tasks mgr plan)"
| vm_run_ended: "command_line_vm args = Some vm \<Longrightarrow> worlds W \<Longrightarrow>
    initialize envs W mgr (arg_vm_net_type args) [vm] = (Inr vs, mgr1, closed) \<Longrightarrow>
    (manager_step envs worlds)\<^sup>*\<^sup>* (Running mgr1) (Exited result mgr') \<Longrightarrow>
    main_ends envs worlds args mgr (map_err RunFailed result) mgr'"
| vm_run_interrupted: "command_line_vm args = Some vm \<Longrightarrow> worlds W \<Longrightarrow>
    initialize envs W mgr (arg_vm_net_type args) [vm] = (Inr vs, mgr1, closed) \<Longrightarrow>
    (manager_step envs worlds)\<^sup>*\<^sup>* (Running mgr1) (Running mgr') \<Longrightarrow>
    main_ends envs worlds args mgr (Inr ()) mgr'"
| run_ended: "command_line_vm args = None \<Longrightarrow>
    (manager_step envs worlds)\<^sup>*\<^sup>* (Running mgr) (Exited result mgr') \<Longrightarrow>
    main_ends envs worlds args mgr (map_err RunFailed result) mgr'"
| run_interrupted: "command_line_vm args = None \<Longrightarrow>
    (manager_step envs worlds)\<^sup>*\<^sup>* (Running mgr) (Running mgr') \<Longrightarrow>
    main_ends envs worlds args mgr (Inr ()) mgr'"

text \<open>The end of the program: the manager is shut down, and the first error is the result.\<close>

definition finish_main ::
  "(uuid \<Rightarrow> ('p, 'm, 'n, 'msg, 'z, 'c, 'rq, 'rs) env) \<Rightarrow> ('n, 'z, 'c, 'rq, 'rs) init_world \<Rightarrow>
   (uuid \<Rightarrow> loop_event list) \<Rightarrow> (uuid \<Rightarrow> Instant) \<Rightarrow> 'n run_error + unit \<Rightarrow> ('m, 'n, 'c) Manager \<Rightarrow>
   ('n run_error + unit) \<times> ('m, 'n, 'c) Manager \<times> (uuid \<times> ('m, 'n, 'c) Proxy) list" where
  "finish_main envs W events now result mgr =
     (case shutdown envs W events now mgr of
        (shutdown_result, mgr, proxies) \<Rightarrow>
          (and_then result (\<lambda>_. map_err RunFailed shutdown_result), mgr, proxies))"

text \<open>The exit code of the process.\<close>

datatype ExitCode = SUCCESS | FAILURE

definition main_exit :: "'e + unit \<Rightarrow> ExitCode" where
  "main_exit result = (case result of Inr _ \<Rightarrow> SUCCESS | Inl _ \<Rightarrow> FAILURE)"

section \<open>Lemmas\<close>

lemma sint_lease:
  fixes lease :: u32
  shows "sint lease = (if unat lease < 2 ^ 31 then int (unat lease) else int (unat lease) - 2 ^ 32)"
proof -
  have bounds: "uint lease < 4294967296" "0 \<le> uint lease" using uint_bounded[of lease] by simp_all
  have "(uint lease + 2147483648) mod 4294967296 =
      (if uint lease < 2147483648 then uint lease + 2147483648 else uint lease - 2147483648)"
  proof (cases "uint lease < 2147483648")
    case False
    then have "(uint lease - 2147483648 + 4294967296) mod 4294967296 = uint lease - 2147483648"
      using bounds by (simp only: mod_add_self2 mod_pos_pos_trivial)
    then show ?thesis using False by (simp add: add.commute)
  qed (use bounds in simp)
  then have "sint lease = (if uint lease < 2147483648 then uint lease else uint lease - 4294967296)"
    by (simp add: sint_uint signed_take_bit_eq_take_bit_shift take_bit_eq_mod)
  moreover have eq: "int (unat lease) = uint lease" by simp
  moreover have "unat lease < 2147483648 \<longleftrightarrow> uint lease < 2147483648"
    by (simp only: eq[symmetric] of_nat_less_numeral_iff)
  ultimately show ?thesis by simp
qed

text \<open>The descriptors accepted are the numbers up to \<open>i32::MAX\<close>, in decimal.\<close>

lemma parse_vm_fd_range: "parse_vm_fd s = Inr fd \<Longrightarrow> 0 \<le> fd \<and> fd \<le> 2147483647"
  by (auto simp: parse_vm_fd_def i32_from_str_def result_iffs dest!: uint_from_str_le split: list.splits if_splits sum.splits)

lemma parse_vm_fd_decimal: "n \<le> 2147483647 \<Longrightarrow> parse_vm_fd (show_nat n) = Inr (int n)"
proof -
  assume "n \<le> 2147483647"
  moreover obtain c cs where s: "show_nat n = c # cs" by (cases "show_nat n") auto
  moreover have "c \<noteq> CHR ''-''" using show_nat_digits[of c n] s by auto
  ultimately show ?thesis
    using uint_from_str_show_nat[of n 2147483647] by (simp add: parse_vm_fd_def i32_from_str_def)
qed

text \<open>A command line that is accepted gives the program something to serve.\<close>

lemma args_ok_serves: "args_ok args \<Longrightarrow> command_line_vm args = None \<Longrightarrow> arg_control_fd args \<noteq> None"
  by (auto simp: args_ok_def command_line_vm_def split: option.splits)

lemma reachable_steps:
  "(manager_step envs worlds)\<^sup>*\<^sup>* s s' \<Longrightarrow> manager_reachable envs worlds s \<Longrightarrow> manager_reachable envs worlds s'"
  by (induction rule: rtranclp_induct) (auto intro: manager_reachable.step)

text \<open>However the select ends, a task forwards only in a consistent manager.\<close>

lemma main_ends_forwarding:
  assumes worlds: "\<And>W. worlds W \<Longrightarrow> good_world W"
    and ends: "main_ends envs worlds args (Manager_new user_name group_name control) result mgr'"
    and fwd: "hm_get (proxy_tasks mgr') vm_id = Some (Forwarding p)"
  shows "manager_wf envs mgr'"
proof -
  have ok: "manager_wf envs mgr'" if "manager_reachable envs worlds s" "s = Running mgr' \<or> s = Exited r mgr'" for s r
    using reachable_ok[OF worlds that(1)] that(2) fwd by (auto simp: state_ok_def)
  from ends show ?thesis
  proof cases
    case (initialize_failed vm W e closed)
    show ?thesis
    proof (cases e)
      case (ActivationFailed x)
      then show ?thesis using activation_failed_stopped[OF manager_new_wf] initialize_failed fwd by blast
    qed (use initialize_rejected(1)[OF good_worldD[OF worlds[OF initialize_failed(3)]] initialize_failed(4)] manager_new_wf in simp_all)
  next
    case (initialize_interrupted vm W plan closed)
    then show ?thesis using fwd by (simp add: register_tasks_eq awaiting_tasks Manager_new_def split: if_splits)
  next
    case (vm_run_ended vm W vs mgr1 closed r)
    note manager_reachable.command_line[where worlds = worlds, OF vm_run_ended(3,4)]
    from ok[OF reachable_steps[OF vm_run_ended(5) this] disjI2[OF refl]] show ?thesis .
  next
    case (vm_run_interrupted vm W vs mgr1 closed)
    note manager_reachable.command_line[where worlds = worlds, OF vm_run_interrupted(3,4)]
    from ok[OF reachable_steps[OF vm_run_interrupted(5) this] disjI1[OF refl]] show ?thesis .
  next
    case (run_ended r)
    from ok[OF reachable_steps[OF run_ended(3) manager_reachable.start] disjI2[OF refl]] show ?thesis .
  next
    case run_interrupted
    from ok[OF reachable_steps[OF run_interrupted(3) manager_reachable.start] disjI1[OF refl]] show ?thesis .
  qed
qed

section \<open>Properties\<close>

text \<open>
  C39: bootpd is configured under a lock that is always released. When the lock is obtained, some of
  setting, committing and applying happen in this order, and then the unlock; the configuration
  succeeds exactly if every call does. The value that is set is the requested lease time up to
  \<open>i32::MAX\<close>, and a negative number above it.
\<close>

theorem bootpd_calls_exact:
  assumes "configure_bootpd answers lease_time = (result, calls)"
  shows "(if answers [] ScLock
      then \<exists>steps rest. steps @ rest = [ScSetValue (sint lease_time) True, ScCommit, ScApply] \<and> steps \<noteq> [] \<and>
        calls = ScLock # steps @ [ScUnlock]
      else calls = [ScLock]) \<and>
    (result = Inr () \<longleftrightarrow> list_all (\<lambda>i. answers (take i calls) (calls ! i)) [0..<length calls]) \<and>
    sint lease_time = (if unat lease_time < 2 ^ 31 then int (unat lease_time) else int (unat lease_time) - 2 ^ 32)"
proof -
  let ?set = "ScSetValue (sint lease_time) True"
  have upt: "[0..<5] = [0, 1, 2, 3, 4]" "[0..<4] = [0, 1, 2, 3]" "[0..<3] = [0, 1, 2]" "[0..<Suc 0] = [0]"
    by (simp_all add: upt_rec)
  consider "\<not> answers [] ScLock" | "answers [] ScLock" "\<not> answers [ScLock] ?set"
    | "answers [] ScLock" "answers [ScLock] ?set" "\<not> answers [ScLock, ?set] ScCommit"
    | "answers [] ScLock" "answers [ScLock] ?set" "answers [ScLock, ?set] ScCommit" "\<not> answers [ScLock, ?set, ScCommit] ScApply"
    | "answers [] ScLock" "answers [ScLock] ?set" "answers [ScLock, ?set] ScCommit" "answers [ScLock, ?set, ScCommit] ScApply"
    by blast
  then show ?thesis
  proof cases
    case 5
    then show ?thesis using assms sint_lease[of lease_time]
      by (auto simp: configure_bootpd_def Let_def ensure_def upt nth_Cons' take_Cons' split: if_splits)
  qed (use assms sint_lease[of lease_time] in \<open>auto simp: configure_bootpd_def Let_def ensure_def upt nth_Cons' take_Cons'
      append_eq_Cons_conv split: if_splits\<close>)
qed

theorem bootpd_calls_exact_witness:
  "configure_bootpd (\<lambda>_ _. True) 3000000000 =
     (Inr (), [ScLock, ScSetValue (- 1294967296) True, ScCommit, ScApply, ScUnlock]) \<and>
   sint (3000000000 :: u32) \<noteq> int (unat (3000000000 :: u32))"
proof -
  have run: "configure_bootpd (\<lambda>_ _. True) 3000000000 =
      (Inr (), [ScLock, ScSetValue (- 1294967296) True, ScCommit, ScApply, ScUnlock])" by code_simp
  with bootpd_calls_exact[OF run] show ?thesis by simp
qed

text \<open>
  C28: the program acts on the system only as root, and becomes root at most once. The preferences
  are touched only by root. Without root the process is replaced by sudo only if a probe succeeded
  and it has not been escalated before, with arguments that mark the escalation and name the real
  user and group. A manager is only created by root with bootpd configured and its lock released,
  for the requested or the real user, and with the requested control connection.
\<close>

theorem startup_privileges:
  assumes "start_main w args = (result, calls, closed)"
  shows "(calls = [] \<or> mw_effective_uid w = 0) \<and>
    (case result of
       Inr (ExecSudo sudo_args) \<Rightarrow>
         mw_effective_uid w \<noteq> 0 \<and> \<not> arg_sudo_escalation_done args \<and>
         (\<exists>exe. mw_exe w = Some exe \<and> sudo_escalation_works w exe) \<and>
         (\<exists>user_name group_name. mw_user_name w = Some user_name \<and> mw_group_name w = Some group_name \<and>
            suffix [''--sudo-escalation-done'', ''--user'', user_name, ''--group'', group_name] sudo_args)
     | Inr (Ready user_name group_name control) \<Rightarrow>
         mw_effective_uid w = 0 \<and>
         calls = [ScLock, ScSetValue (sint (arg_bootpd_lease_time args)) True, ScCommit, ScApply, ScUnlock] \<and>
         Some user_name = (if arg_user args = None then mw_user_name w else arg_user args) \<and>
         Some group_name = (if arg_group args = None then mw_group_name w else arg_group args) \<and>
         map_option (ct_socket \<circ> transport) control = arg_control_fd args \<and> closed = []
     | Inr ProbingOk \<Rightarrow> arg_sudo_escalation_probing args \<and> calls = []
     | Inl _ \<Rightarrow> closed = [] \<or> Some (hd closed) = arg_control_fd args \<and> length closed = 1)"
proof -
  have bootpd: "made = [ScLock, ScSetValue (sint lease) True, ScCommit, ScApply, ScUnlock]"
    if "configure_bootpd (mw_sc w) lease = (Inr (), made)" for lease made
    using that by (auto simp: configure_bootpd_def Let_def ensure_def split: if_splits)
  have control: "case r of Inr c \<Rightarrow> map_option (ct_socket \<circ> transport) c = fd \<and> dropped = []
      | Inl _ \<Rightarrow> dropped = [] \<or> Some (hd dropped) = fd \<and> length dropped = 1"
    if "open_control (mw_os w) fd = (r, dropped)" for fd r dropped
    using that by (auto simp: open_control_def Control_new_def ControlTransport_new_def result_iffs split: option.splits sum.splits prod.splits if_splits)
  show ?thesis
    using assms unfolding start_main_def
    by (auto simp: escalation_arguments_def suffix_def Let_def dest!: bootpd control
        split: if_split_asm option.split_asm sum.split_asm prod.split_asm)
qed

definition sample_args :: "string Args" where
  "sample_args =
     \<lparr>arg_vm_fd = Some 3, arg_control_fd = None, arg_vm_mac_address = Some [2, 0, 0, 0, 0, 9], arg_vm_name = None,
      arg_vm_net_type = NetNat, arg_bootpd_lease_time = 600, arg_user = None, arg_group = None,
      arg_allow = [dns_only], arg_block = [block_all], arg_expose = [],
      arg_sudo_escalation_probing = False, arg_sudo_escalation_done = False\<rparr>"

definition sample_main_world :: "nat \<Rightarrow> main_world" where
  "sample_main_world uid =
     \<lparr>mw_user_name = Some ''nobody'', mw_group_name = Some ''nobody'', mw_effective_uid = uid, mw_exe = Some ''softnet'',
      mw_command_line = [''--vm-fd'', ''3''], mw_run_sudo = (\<lambda>_. True), mw_exec_sudo = (\<lambda>_. True),
      mw_sc = (\<lambda>_ _. True), mw_os = sample_control_os,
      mw_signal = Inr ()\<rparr>"

theorem startup_privileges_witness:
  "\<exists>sudo_args. start_main (sample_main_world 501) sample_args = (Inr (ExecSudo sudo_args), [], []) \<and>
     suffix [''--sudo-escalation-done'', ''--user'', ''nobody'', ''--group'', ''nobody''] sudo_args"
proof -
  obtain result calls closed where run: "start_main (sample_main_world 501) sample_args = (result, calls, closed)"
    by (rule prod_cases3)
  then obtain sudo_args where "result = Inr (ExecSudo sudo_args)" "calls = []" "closed = []"
    by (auto simp: start_main_def Let_def sample_main_world_def sample_args_def sudo_escalation_works_def)
  then show ?thesis
    using startup_privileges[OF run] run by (auto simp: sample_main_world_def)
qed



end
