(* ===== verification/Spec2Isabelle.thy ===== *)
theory Spec2Isabelle
  imports Control_Properties Main_Program
begin

text \<open>
  A verification of Softnet, the packet filter that sits between the virtual machines of a host and
  Apple's vmnet. Every VM has a socket on which it exchanges Ethernet frames with Softnet; a proxy
  per VM forwards the frames that its policy allows to the VM's vmnet interface and back, and
  answers DHCP and DNS itself. A manager creates the shared network and the proxies, drops
  privileges, and serves policy requests from a control socket.

  \<^bold>\<open>Conventions.\<close> Rust results are sums with the error on the left and \<open>and_then\<close> for the question mark
  operator; hash maps are association lists with distinct keys; machine integers are words of their
  width; structures are records. State is passed explicitly: an operation returns its result, the
  new state and what it sent or closed. Clock readings are arguments. Asynchronous loops are
  functions over the list of events that the operating system delivers, or step relations where
  several tasks interleave. Code outside the repository (ipnet, prefix\_trie, dhcproto, hickory,
  etherparse, Tokio's line decoder, serde\_json, jsonrpsee, rand, vmnet and the system calls) is a
  record of functions that the definitions take as arguments. What the code relies on of it are
  the assumptions of a locale, and each locale is interpreted on a computing reference instance,
  on which the witnesses evaluate.

  \<^bold>\<open>Theories.\<close>

  \<^item> \<open>Prelude\<close>: the vocabulary above, decimal numbers, string splitting, and the shared lemmas.
  \<^item> \<open>Ipnet\<close>: the interface \<open>ipnet_api\<close> of IPv4 prefixes. \<open>Rule\<close>: the rule language of
    \<open>lib/proxy/rule.rs\<close> and \<open>rule.pest\<close>, its grammar, parser, printer and normal form. Its theorems:
    printing and parsing are inverse, and the parser accepts only well-formed rules and never panics.
  \<^item> \<open>Wire\<close>: the parts of a frame that the filter reads. \<open>Rules\<close>: \<open>lib/proxy/rules.rs\<close>, the compilation
    of a policy into two prefix maps and the selection of an action, over the interface
    \<open>policy_api\<close>. Selection is the highest-priority match of the flat rule list; order and
    repetition do not matter; a packet with unreadable ports is treated conservatively.
  \<^item> \<open>Flows\<close>: \<open>lib/proxy/flows\<close>, the table of tracked TCP, UDP and ICMP echo flows. The bounded and
    swept table refines a map of permissions from which nothing is removed; return traffic is
    allowed only on a live permission of the other side.
  \<^item> \<open>Dhcp_Server\<close> and \<open>Dns_Server\<close>: \<open>lib/dhcp_server\<close> and \<open>lib/dns_server\<close>, their replies and where
    these can go.
  \<^item> \<open>Vm\<close> and \<open>Host_Side\<close>: \<open>lib/vm.rs\<close> and \<open>lib/host.rs\<close>, the two ends of a proxy, with the descriptors
    they close and the states of the vmnet interface.
  \<^item> \<open>Proxy\<close>: \<open>lib/proxy/mod.rs\<close>, \<open>vm.rs\<close> and \<open>host.rs\<close>, the admission of frames in both directions,
    the policy operations and the select loop. \<open>Proxy_Safety\<close> has what each decision leaves
    unchanged, \<open>Proxy_Trace\<close> what holds over sequences of frames and commands, \<open>Proxy_Properties\<close>
    the theorems: frames that leave are genuine and permitted, frames that are delivered are
    return traffic or permitted, replies come through until the flow times out, and policy
    changes take effect at once and completely.
  \<^item> \<open>Subnet_Finder\<close>, \<open>Exposed_Port\<close>, \<open>Network\<close>: \<open>lib/subnet_finder\<close>, \<open>lib/proxy/exposed_port.rs\<close> and
    \<open>lib/network.rs\<close>: a private subnet that no interface uses, port specifications, and the calls
    on vmnet's configuration.
  \<^item> \<open>Manager\<close> and \<open>Manager_Properties\<close>: \<open>lib/manager.rs\<close>. A task spawned for a VM is an entry of
    \<open>proxy_tasks\<close> with what it is doing; \<open>manager_step\<close> interleaves the branches of the run loop with
    the steps of the tasks. A batch is activated as a whole or not at all, no packet is forwarded
    with privileges, a policy change reaches only its target, and shutdown completes from every
    state.
  \<^item> \<open>Control_Transport\<close>, \<open>Control\<close>, \<open>Control_Properties\<close>: \<open>lib/control_transport.rs\<close> and
    \<open>lib/control.rs\<close>, the framing of the control socket and the JSON-RPC protocol on it. One call
    reads one frame for any chunking of the stream; requests that are let through are well
    formed, errors are precise, responses come in order, and no descriptor is lost.
  \<^item> \<open>Main_Program\<close>: \<open>src/main.rs\<close>, becoming root, configuring bootpd, and that the program ends clean
    however it ends.
  \<^item> This theory has the property that spans them: a policy set over the control socket is what decides
    on the frames of its VM from the moment the request is answered.

  \<^bold>\<open>Bounds.\<close> Loops are recursions on their data: the frames of a burst (at most 128), the attempts of the
  subnet search (128), the receive results of the control socket, the turns of the control task.
  The select loop of a proxy and the run loop of the manager are unbounded; the first is a function
  of its events, of which there are finitely many at any time, the second a step relation.
  No fuel is used outside the reference JSON reader, which gives each character one step.

  \<^bold>\<open>Not modelled.\<close> Log messages, error reports to Sentry, error texts beyond their causes, the help texts
  of the command line, cooperative yielding of tasks, and the iteration of the callback thread of
  vmnet, which only signals the event that a read is possible. The bytes of frames are abstract
  where the filter does not read them, and clap's parsing is represented by its result.
\<close>

section \<open>From the control socket to the frames of a VM\<close>

text \<open>A successful answer to a policy change means that its target runs with the requested policy.\<close>

lemma policy_answer_installed:
  assumes "Control_parse J line = (Inr (req_id, SetPolicy target allow block), fds)"
    and "control_answer J (manager_call envs W now) mgr line = (Some resp, mgr', closed)" and "resp_payload resp = Inr reply"
    and "proxy_handle mgr target = Inr vm_id"
  obtains p pol q where "hm_get (proxy_tasks mgr) vm_id = Some (Forwarding p)"
    "policy_set (envs vm_id) p allow block now = (pol, q)" "hm_get (proxy_tasks mgr') vm_id = Some (Forwarding q)"
    "reply = reply_json J (PolicyReply pol)"
proof -
  obtain r mgr'' result closed' where d: "dispatch envs W now mgr (SetPolicy target allow block) = (r, mgr'', result, closed')"
    by (rule prod_cases4)
  then have resp: "resp = response req_id (call_result J result)" "mgr'' = mgr'"
    using assms(1,2) by (simp_all add: control_answer_def manager_call_def)
  then have "call_result J result = Inr reply" using assms(3) by (simp add: response_def)
  then obtain rep where rep: "result = Inr rep" "reply = reply_json J rep"
    by (auto simp: call_result_def split: sum.splits CallError.splits)
  from d[unfolded rep(1)] assms(4) show thesis
    by (rule dispatch_set_target) (use that rep(2) resp(2) in \<open>simp add: hm_get_insert\<close>)
qed

text \<open>
  C3: a policy that a client sets over the control socket is enforced. Once its request has been
  answered with success, and until the next command for that VM, every frame of the VM that reaches
  the network has the VM's own addresses, and is ARP, or is permitted by the rules of the request,
  or answers a packet that was delivered to the VM. Where the request changed the policy, that
  packet was delivered after the change: connections of the old policy do not survive it.
\<close>

theorem policy_request_enforced:
  assumes "policy_api (env_policy (envs vm_id)) pm_inv"
    and "\<And>W. worlds W \<Longrightarrow> good_world W" and "manager_reachable envs worlds (Running mgr)"
    and "Control_parse J line = (Inr (req_id, SetPolicy target allow block), fds)"
    and "control_answer J (manager_call envs W now) mgr line = (Some resp, mgr', closed)" and "resp_payload resp = Inr reply"
    and "proxy_handle mgr target = Inr vm_id"
    and "hm_get (proxy_tasks mgr) vm_id = Some (Forwarding p)" and "hm_get (proxy_tasks mgr') vm_id = Some (Forwarding q)"
    and "run_proxy (envs vm_id) q events = (e, q', sent)" and "list_all (Not \<circ> is_command) events"
    and "process_frame_from_vm (envs vm_id) q' frame later = (r, q'', out)" and "ToHost b \<in> set out"
  shows "b = frame_bytes frame \<and> frame_src frame = vm_mac_address p \<and>
    (frame_ethertype frame = EtherArp \<and> arp_of_vm frame (vm_mac_address p) (host_vm_ip (px_host p)) \<or>
     frame_ethertype frame = EtherIpv4 \<and> src_addr (frame_ipv4 frame) = host_vm_ip (px_host p) \<and>
     \<not> to_dhcp_server (frame_ipv4 frame) \<and>
     (spec_egress (envs vm_id) (host_gateway_ip (px_host p)) (peer_ips p) allow block (frame_ipv4 frame) \<or>
      is_return_traffic q' (frame_ipv4 frame) FromVm later \<and>
      (q = p \<or>
       (\<exists>passed inbound t. frames_reach (envs vm_id) q q' passed \<and> (FromHost, inbound, t) \<in> set passed \<and>
          packet_key (frame_ipv4 inbound) FromHost = packet_key (frame_ipv4 frame) FromVm \<and>
          later < t + flow_timeout (frame_ipv4 inbound)))))"
proof -
  let ?env = "envs vm_id"
  have "manager_wf envs mgr" using reachable_ok[OF assms(2,3)] by (simp add: state_ok_def)
  then have wf: "proxy_wf ?env p" using manager_wf_task(3)[OF _ assms(8)] by (simp add: task_ok_def)
  obtain pol where set: "policy_set ?env p allow block now = (pol, q)"
    by (rule policy_answer_installed[OF assms(4-7)]) (use assms(8,9) in simp)
  obtain passed where reach: "frames_reach ?env q q' passed" using run_proxy_reach[OF assms(10,11)] by blast
  note wfq = policy_set_wf[OF wf set]
  note kept = frames_reach_policy[OF reach wfq]
  have id: "same_identity p q'"
    using policy_set_identity[OF set] reachable_identity[OF kept(1) wfq] by (rule same_identity_trans)
  have lists: "px_allow q = normalize_rules (env_policy ?env) allow" "px_block q = normalize_rules (env_policy ?env) block"
    using set by (auto simp: policy_set_def Let_def split: if_splits)
  have egress: "spec_egress ?env gw peers (px_allow q') (px_block q') pkt = spec_egress ?env gw peers allow block pkt"
    for gw peers pkt
    by (simp add: spec_egress_def kept(3,4) lists spec_decision_normalized[OF assms(1)])
  have traced: "q = p \<or> flows_opened q' passed"
    using set
  proof (cases rule: policy_set_cases)
    case (changed rules)
    then have "px_flows q = Some t \<Longrightarrow> flows t = []" for t
      by (auto simp: new_flows_def FlowTable_new_def split: if_splits)
    then show ?thesis using reachable_opened[OF kept(1) wfq] by blast
  qed simp
  show ?thesis
    using vm_frame_genuine[OF assms(1) kept(2) assms(12,13)] id traced
      return_traffic_opened[of q' passed "frame_ipv4 frame" FromVm later] reach
    unfolding egress same_identity_def by auto
qed

text \<open>A client blocks 10.0.0.0/8 for the only VM, 172.16.0.2, which then sends a datagram to 8.8.8.8.\<close>

definition sample_set :: string where
  \<open>sample_set = ''{"jsonrpc":"2.0","id":8,"method":"softnet.policy.set","params":{"allow":[],"block":["10.0.0.0/8"]}}''\<close>

definition sample_line :: Frame where
  "sample_line = \<lparr>frame_line = Inr sample_set, frame_fds = []\<rparr>"

definition block_ten :: Rule where
  "block_ten = Stateless (Prefix (Ipv4Net 167772160 8))"

definition sample_query :: EthernetFrame where
  "sample_query = sample_frame sample_mac (sample_udp 2886729730 1000 134744072 53)"

lemma sample_line_parse: "\<exists>fds. Control_parse ref_control sample_line = (Inr (IdNumber 8, SetPolicy None [] [block_ten]), fds)"
proof -
  have "case fst (Control_parse ref_control sample_line) of
      Inr p \<Rightarrow> fst p = IdNumber 8 \<and> (case snd p of SetPolicy target allow block \<Rightarrow>
        target = None \<and> allow = [] \<and> block = [block_ten] | _ \<Rightarrow> False) | Inl _ \<Rightarrow> False"
    by code_simp
  then show ?thesis
    by (cases "Control_parse ref_control sample_line") (auto split: sum.splits Request.splits)
qed

theorem policy_request_enforced_witness:
  "\<exists>resp mgr' closed p q r q''. control_answer ref_control (manager_call (\<lambda>_. sample_env) sample_world 7) sample_manager sample_line =
     (Some resp, mgr', closed) \<and> hm_get (proxy_tasks sample_manager) 1 = Some (Forwarding p) \<and>
   hm_get (proxy_tasks mgr') 1 = Some (Forwarding q) \<and>
   process_frame_from_vm sample_env q sample_query 9 = (r, q'', [ToHost [1, 2, 3]]) \<and>
   frame_src sample_query = vm_mac_address p"
proof -
  let ?answer = "control_answer ref_control (manager_call (\<lambda>_. sample_env) sample_world 7) sample_manager sample_line"
  obtain fds where parsed: "Control_parse ref_control sample_line = (Inr (IdNumber 8, SetPolicy None [] [block_ten]), fds)"
    using sample_line_parse by blast
  obtain p where p: "hm_get (proxy_tasks sample_manager) 1 = Some (Forwarding p)" using sample_manager_task by blast
  obtain resp mgr' closed q reply where answer: "?answer = (Some resp, mgr', closed)" "resp_payload resp = Inr reply"
    and q: "hm_get (proxy_tasks mgr') 1 = Some (Forwarding q)" "q = snd (policy_set sample_env p [] [block_ten] 7)"
    using parsed p sample_manager_handle
    by (cases "policy_set sample_env p [] [block_ten] 7")
      (auto simp: control_answer_def manager_call_def dispatch_def proxy_request_def on_command_def ok_or_def and_then_def map_err_def
        call_result_def response_def hm_get_insert)
  have "case hm_get (proxy_tasks sample_manager) 1 of Some (Forwarding p) \<Rightarrow>
      snd (snd (process_frame_from_vm sample_env (snd (policy_set sample_env p [] [block_ten] 7)) sample_query 9)) = [ToHost [1, 2, 3]]
    | _ \<Rightarrow> False"
    by code_simp
  then obtain r q'' where out: "process_frame_from_vm sample_env q sample_query 9 = (r, q'', [ToHost [1, 2, 3]])"
    using p q(2) by (cases "process_frame_from_vm sample_env q sample_query 9") auto
  from policy_request_enforced[OF sample_api _ sample_manager_reachable parsed answer sample_manager_handle(1) p q(1)
      run_proxy.simps(1) _ out] sample_good
  show ?thesis using answer(1) p q(1) out by auto
qed

end
